theory Spec2Isabelle
  imports Complex_Main "HOL-Library.Multiset"
begin

section \<open>Data model of MaxSATSolver.cpp\<close>

text \<open>
  The C++ \<^verbatim>\<open>int\<close> is modelled as \<open>int\<close> (costs and frequency counts stay far from
  the 32-bit limits), \<^verbatim>\<open>double\<close> as \<open>real\<close>, and \<^verbatim>\<open>vector<T>\<close> as a list. An index
  that falls outside its vector is undefined behaviour in C++; the model makes it the
  error value \<open>OutOfRange\<close>. Constructing a \<^verbatim>\<open>uniform_int_distribution(a, b)\<close> with
  \<open>b < a\<close> violates the precondition of the constructor; the model makes it
  \<open>InvalidDistribution\<close>.
\<close>

datatype TBool = Unknown | FalseT | TrueT

datatype error = OutOfRange | InvalidDistribution

record Conteo =
  pos :: int
  neg :: int

record Clausula =
  variables :: "int list"
  satisfaccion :: TBool

record Formula =
  clausulas :: "Clausula list"

text \<open>The constructors \<^verbatim>\<open>Clausula(vector<int> vars)\<close> and \<^verbatim>\<open>Formula(const vector<Clausula> &)\<close>.\<close>

definition Clausula_de :: "int list \<Rightarrow> Clausula" where
  "Clausula_de vars = \<lparr>variables = vars, satisfaccion = Unknown\<rparr>"

definition Formula_de :: "Clausula list \<Rightarrow> Formula" where
  "Formula_de clauses = \<lparr>clausulas = clauses\<rparr>"

text \<open>The toggle \<^verbatim>\<open>(x == TBool::True) ? TBool::False : TBool::True\<close> used by every move.\<close>

definition flipT :: "TBool \<Rightarrow> TBool" where
  "flipT x = (if x = TrueT then FalseT else TrueT)"

subsection \<open>Clausula::esSatisfecha and Formula::calcularCosto\<close>

fun esSatisfecha_desde :: "int list \<Rightarrow> TBool list \<Rightarrow> error + bool" where
  "esSatisfecha_desde [] variablesGlobales = Inr False"
| "esSatisfecha_desde (v # vs) variablesGlobales =
     (let idx = \<bar>v\<bar> - 1 in
      if idx < 0 \<or> int (length variablesGlobales) \<le> idx then Inl OutOfRange
      else if variablesGlobales ! nat idx = Unknown then esSatisfecha_desde vs variablesGlobales
      else if (v > 0 \<and> variablesGlobales ! nat idx = TrueT) \<or>
              (v < 0 \<and> variablesGlobales ! nat idx = FalseT) then Inr True
      else esSatisfecha_desde vs variablesGlobales)"

definition esSatisfecha :: "Clausula \<Rightarrow> TBool list \<Rightarrow> error + bool" where
  "esSatisfecha c variablesGlobales = esSatisfecha_desde (variables c) variablesGlobales"

fun calcularCosto_desde :: "Clausula list \<Rightarrow> TBool list \<Rightarrow> int \<Rightarrow> error + int" where
  "calcularCosto_desde [] vars costo = Inr costo"
| "calcularCosto_desde (c # cs) vars costo =
     (case esSatisfecha c vars of
        Inl e \<Rightarrow> Inl e
      | Inr s \<Rightarrow> calcularCosto_desde cs vars (if \<not> s then costo + 1 else costo))"

definition calcularCosto :: "Formula \<Rightarrow> TBool list \<Rightarrow> error + int" where
  "calcularCosto f vars = calcularCosto_desde (clausulas f) vars 0"

subsection \<open>Well-formed inputs and the cost as a count\<close>

text \<open>
  A literal is in range for \<open>n\<close> variables when it is nonzero and its variable id is at
  most \<open>n\<close>: what the DIMACS reader hands to the core.
\<close>

definition enRango :: "nat \<Rightarrow> int \<Rightarrow> bool" where
  "enRango n v = (1 \<le> \<bar>v\<bar> \<and> \<bar>v\<bar> \<le> int n)"

definition bienFormada :: "nat \<Rightarrow> Formula \<Rightarrow> bool" where
  "bienFormada n f = list_all (\<lambda>c. list_all (enRango n) (variables c)) (clausulas f)"

definition literalCierto :: "TBool list \<Rightarrow> int \<Rightarrow> bool" where
  "literalCierto vars v =
     ((v > 0 \<and> vars ! nat (\<bar>v\<bar> - 1) = TrueT) \<or> (v < 0 \<and> vars ! nat (\<bar>v\<bar> - 1) = FalseT))"

definition satisface :: "TBool list \<Rightarrow> Clausula \<Rightarrow> bool" where
  "satisface vars c = list_ex (literalCierto vars) (variables c)"

definition costo :: "Formula \<Rightarrow> TBool list \<Rightarrow> int" where
  "costo f vars = int (length (filter (\<lambda>c. \<not> satisface vars c) (clausulas f)))"

subsection \<open>Formula::busquedaLocal\<close>

text \<open>
  The candidate list of one round: \<open>abs(v) - 1\<close> for every literal of every clause that
  is unsatisfied, then \<^verbatim>\<open>sort\<close> and \<^verbatim>\<open>unique\<close>/\<^verbatim>\<open>erase\<close>.
\<close>

fun candidatos_desde :: "Clausula list \<Rightarrow> TBool list \<Rightarrow> error + int list" where
  "candidatos_desde [] vars = Inr []"
| "candidatos_desde (c # cs) vars =
     (case esSatisfecha c vars of
        Inl e \<Rightarrow> Inl e
      | Inr s \<Rightarrow>
          (case candidatos_desde cs vars of
             Inl e \<Rightarrow> Inl e
           | Inr resto \<Rightarrow>
               Inr ((if \<not> s then map (\<lambda>v. \<bar>v\<bar> - 1) (variables c) else []) @ resto)))"

definition candidatos :: "Formula \<Rightarrow> TBool list \<Rightarrow> error + int list" where
  "candidatos f vars =
     (case candidatos_desde (clausulas f) vars of
        Inl e \<Rightarrow> Inl e
      | Inr xs \<Rightarrow> Inr (remdups_adj (sort xs)))"

text \<open>
  The \<^verbatim>\<open>for (int idx : candidatos)\<close> loop: the result is the assignment, the current
  cost and the flag \<open>mejora\<close>; the loop stops at the first improving flip.
\<close>

fun probar :: "Formula \<Rightarrow> int list \<Rightarrow> TBool list \<Rightarrow> int \<Rightarrow> error + (TBool list \<times> int \<times> bool)" where
  "probar f [] vars costoActual = Inr (vars, costoActual, False)"
| "probar f (idx # resto) vars costoActual =
     (if idx < 0 \<or> int (length vars) \<le> idx then Inl OutOfRange
      else
        let vars1 = vars[nat idx := flipT (vars ! nat idx)] in
        (case calcularCosto f vars1 of
           Inl e \<Rightarrow> Inl e
         | Inr nuevoCosto \<Rightarrow>
             if nuevoCosto < costoActual then Inr (vars1, nuevoCosto, True)
             else probar f resto (vars1[nat idx := flipT (vars1 ! nat idx)]) costoActual))"

text \<open>
  The \<^verbatim>\<open>while (mejora)\<close> loop: a round builds the candidates and scans them, and the
  loop repeats after an improving flip. The cost is bounded below by 0, so an improving
  round lowers a non-negative cost and the loop ends.
\<close>

lemma calcularCosto_desde_cotas:
  "calcularCosto_desde cs vars k = Inr c \<Longrightarrow> k \<le> c \<and> c \<le> k + int (length cs)"
proof (induction cs arbitrary: k)
  case Nil
  then show ?case by simp
next
  case (Cons a cs)
  then show ?case
    by (fastforce split: sum.splits if_splits)
qed

lemma calcularCosto_cotas:
  "calcularCosto f vars = Inr c \<Longrightarrow> 0 \<le> c \<and> c \<le> int (length (clausulas f))"
  using calcularCosto_desde_cotas [of "clausulas f" vars 0 c]
  by (simp add: calcularCosto_def)

lemma probar_mejora_cotas:
  "probar f cands vars c = Inr (vars', c', True) \<Longrightarrow> 0 \<le> c' \<and> c' < c"
proof (induction cands arbitrary: vars)
  case Nil
  then show ?case by simp
next
  case (Cons idx resto)
  then show ?case
    by (auto simp: Let_def split: if_splits sum.splits dest: calcularCosto_cotas)
qed

function busquedaLocal_bucle :: "Formula \<Rightarrow> TBool list \<Rightarrow> int \<Rightarrow> error + TBool list" where
  "busquedaLocal_bucle f vars costoActual =
     (case candidatos f vars of
        Inl e \<Rightarrow> Inl e
      | Inr cands \<Rightarrow>
          (case probar f cands vars costoActual of
             Inl e \<Rightarrow> Inl e
           | Inr (vars', costo', mejora) \<Rightarrow>
               if mejora then busquedaLocal_bucle f vars' costo' else Inr vars'))"
  by pat_completeness auto
termination
  by (relation "measure (\<lambda>(f, vars, costoActual). nat costoActual)")
     (auto dest: probar_mejora_cotas)

declare busquedaLocal_bucle.simps [simp del]

definition busquedaLocal :: "Formula \<Rightarrow> TBool list \<Rightarrow> error + TBool list" where
  "busquedaLocal f vars =
     (case calcularCosto f vars of
        Inl e \<Rightarrow> Inl e
      | Inr costoActual \<Rightarrow> busquedaLocal_bucle f vars costoActual)"

subsection \<open>The random source\<close>

text \<open>
  \<^verbatim>\<open>mt19937\<close> is modelled by the stream of raw values it has still to produce; a draw
  takes the head. \<^verbatim>\<open>uniform_int_distribution<>(a, b)\<close> requires \<open>a \<le> b\<close> and maps a raw
  value into \<open>[a, b]\<close>; \<^verbatim>\<open>uniform_real_distribution<>(0.0, 1.0)\<close> maps one into \<open>[0, 1)\<close>.
  Every value of the range is reached by some stream, so a statement for all streams
  covers every outcome of the generator.
\<close>

type_synonym mt19937 = "nat \<Rightarrow> nat"

definition uniform_int_distribution :: "int \<Rightarrow> int \<Rightarrow> error + (int \<times> int)" where
  "uniform_int_distribution a b = (if b < a then Inl InvalidDistribution else Inr (a, b))"

definition sortear :: "int \<times> int \<Rightarrow> mt19937 \<Rightarrow> int \<times> mt19937" where
  "sortear dis gen =
     (fst dis + int (gen 0) mod (snd dis - fst dis + 1), \<lambda>i. gen (Suc i))"

definition sortear_real :: "mt19937 \<Rightarrow> real \<times> mt19937" where
  "sortear_real gen = (real (gen 0 mod 2 ^ 53) / 2 ^ 53, \<lambda>i. gen (Suc i))"

subsection \<open>Formula::busquedaLocalIterada\<close>

text \<open>
  \<^verbatim>\<open>int k = max(1, (int)(vars.size() * 0.05))\<close>: the cast truncates, which on a
  non-negative value is the floor. (The \<^verbatim>\<open>double\<close> nearest to 0.05 exceeds it by a
  relative \<open>1 / 2 ^ 54\<close>, too little to carry the product past an integer for any
  vector size, so the floor of the exact product is what the C++ computes.)
\<close>

definition k_perturbacion :: "nat \<Rightarrow> int" where
  "k_perturbacion n = max 1 \<lfloor>real n * 0.05\<rfloor>"

fun perturbar :: "nat \<Rightarrow> int \<times> int \<Rightarrow> TBool list \<Rightarrow> mt19937 \<Rightarrow> error + (TBool list \<times> mt19937)" where
  "perturbar 0 dis actual gen = Inr (actual, gen)"
| "perturbar (Suc j) dis actual gen =
     (let (idx, gen') = sortear dis gen in
      if idx < 0 \<or> int (length actual) \<le> idx then Inl OutOfRange
      else perturbar j dis (actual[nat idx := flipT (actual ! nat idx)]) gen')"

text \<open>One round of the \<^verbatim>\<open>for\<close> loop: perturbation, local search, acceptance.\<close>

definition ils_ronda ::
  "Formula \<Rightarrow> nat \<Rightarrow> int \<times> int \<Rightarrow> TBool list \<times> int \<times> mt19937 \<Rightarrow>
   error + (TBool list \<times> int \<times> mt19937)" where
  "ils_ronda f n dis st =
     (case st of (mejorSolucion, mejorCosto, gen) \<Rightarrow>
        (case perturbar (nat (k_perturbacion n)) dis mejorSolucion gen of
           Inl e \<Rightarrow> Inl e
         | Inr (actual, gen') \<Rightarrow>
             (case busquedaLocal f actual of
                Inl e \<Rightarrow> Inl e
              | Inr actual' \<Rightarrow>
                  (case calcularCosto f actual' of
                     Inl e \<Rightarrow> Inl e
                   | Inr costoActual \<Rightarrow>
                       if costoActual < mejorCosto then Inr (actual', costoActual, gen')
                       else Inr (mejorSolucion, mejorCosto, gen')))))"

fun ils_bucle ::
  "Formula \<Rightarrow> nat \<Rightarrow> int \<times> int \<Rightarrow> nat \<Rightarrow> TBool list \<times> int \<times> mt19937 \<Rightarrow>
   error + (TBool list \<times> int \<times> mt19937)" where
  "ils_bucle f n dis 0 st = Inr st"
| "ils_bucle f n dis (Suc m) st =
     (case ils_ronda f n dis st of
        Inl e \<Rightarrow> Inl e
      | Inr st' \<Rightarrow> ils_bucle f n dis m st')"

text \<open>
  \<^verbatim>\<open>vars.size() - 1\<close> is computed in \<^verbatim>\<open>size_t\<close> and narrowed to \<^verbatim>\<open>int\<close>: for an empty
  vector it is \<open>-1\<close>. The result is the final \<open>vars\<close> and the advanced generator.
\<close>

definition busquedaLocalIterada ::
  "Formula \<Rightarrow> TBool list \<Rightarrow> int \<Rightarrow> mt19937 \<Rightarrow> error + (TBool list \<times> mt19937)" where
  "busquedaLocalIterada f vars maxIteraciones gen =
     (case calcularCosto f vars of
        Inl e \<Rightarrow> Inl e
      | Inr mejorCosto \<Rightarrow>
          (case uniform_int_distribution 0 (int (length vars) - 1) of
             Inl e \<Rightarrow> Inl e
           | Inr dis \<Rightarrow>
               (case ils_bucle f (length vars) dis (nat maxIteraciones) (vars, mejorCosto, gen) of
                  Inl e \<Rightarrow> Inl e
                | Inr (mejorSolucion, mejorCosto', gen') \<Rightarrow> Inr (mejorSolucion, gen'))))"

subsection \<open>Formula::busquedaTabu\<close>

text \<open>
  The neighbourhood scan \<^verbatim>\<open>for (int i = 0; i < n; i++)\<close>, over the indices still to
  visit. Every index is below \<open>n\<close>, the length of both \<open>vars\<close> and \<open>tabuUntil\<close>. The
  result is \<open>vars\<close> after the simulated flips and reverts, \<open>mejorVarIdx\<close> and
  \<open>mejorDelta\<close>.
\<close>

fun explorar ::
  "Formula \<Rightarrow> int \<Rightarrow> int list \<Rightarrow> int \<Rightarrow> int \<Rightarrow> nat list \<Rightarrow> TBool list \<Rightarrow> int \<Rightarrow> int \<Rightarrow>
   error + (TBool list \<times> int \<times> int)" where
  "explorar f iter tabuUntil costoActual mejorCostoGlobal [] vars mejorVarIdx mejorDelta =
     Inr (vars, mejorVarIdx, mejorDelta)"
| "explorar f iter tabuUntil costoActual mejorCostoGlobal (i # resto) vars mejorVarIdx mejorDelta =
     (let vars1 = vars[i := flipT (vars ! i)] in
      case calcularCosto f vars1 of
        Inl e \<Rightarrow> Inl e
      | Inr nuevoCosto \<Rightarrow>
          (let delta = nuevoCosto - costoActual;
               esTabu = (iter < tabuUntil ! i);
               aspira = (nuevoCosto < mejorCostoGlobal);
               vars2 = vars1[i := flipT (vars1 ! i)]
           in if (\<not> esTabu \<or> aspira) \<and> delta < mejorDelta
              then explorar f iter tabuUntil costoActual mejorCostoGlobal resto vars2 (int i) delta
              else explorar f iter tabuUntil costoActual mejorCostoGlobal resto vars2
                     mejorVarIdx mejorDelta))"

record EstadoTabu =
  ts_vars :: "TBool list"
  ts_tabuUntil :: "int list"
  ts_costoActual :: int
  ts_mejorSolucionGlobal :: "TBool list"
  ts_mejorCostoGlobal :: int
  ts_gen :: mt19937

text \<open>The body of \<^verbatim>\<open>for (int iter = 1; iter <= maxIteraciones; iter++)\<close>.\<close>

definition tabu_iteracion :: "Formula \<Rightarrow> int \<Rightarrow> int \<Rightarrow> EstadoTabu \<Rightarrow> error + EstadoTabu" where
  "tabu_iteracion f tenureBase iter st =
     (case explorar f iter (ts_tabuUntil st) (ts_costoActual st) (ts_mejorCostoGlobal st)
             [0..<length (ts_vars st)] (ts_vars st) (- 1) 1000000000 of
        Inl e \<Rightarrow> Inl e
      | Inr (vars', mejorVarIdx, mejorDelta) \<Rightarrow>
          if mejorVarIdx \<noteq> - 1 then
            (let vars2 = vars'[nat mejorVarIdx := flipT (vars' ! nat mejorVarIdx)];
                 costo2 = ts_costoActual st + mejorDelta;
                 (t, gen') = sortear (0, 5) (ts_gen st);
                 tabu2 = (ts_tabuUntil st)[nat mejorVarIdx := iter + tenureBase + t]
             in if costo2 < ts_mejorCostoGlobal st
                then Inr \<lparr>ts_vars = vars2, ts_tabuUntil = tabu2, ts_costoActual = costo2,
                       ts_mejorSolucionGlobal = vars2, ts_mejorCostoGlobal = costo2,
                       ts_gen = gen'\<rparr>
                else Inr \<lparr>ts_vars = vars2, ts_tabuUntil = tabu2, ts_costoActual = costo2,
                       ts_mejorSolucionGlobal = ts_mejorSolucionGlobal st,
                       ts_mejorCostoGlobal = ts_mejorCostoGlobal st, ts_gen = gen'\<rparr>)
          else Inr (st\<lparr>ts_vars := vars'\<rparr>))"

fun tabu_bucle :: "Formula \<Rightarrow> int \<Rightarrow> nat \<Rightarrow> int \<Rightarrow> EstadoTabu \<Rightarrow> error + EstadoTabu" where
  "tabu_bucle f tenureBase 0 iter st = Inr st"
| "tabu_bucle f tenureBase (Suc m) iter st =
     (case tabu_iteracion f tenureBase iter st of
        Inl e \<Rightarrow> Inl e
      | Inr st' \<Rightarrow> tabu_bucle f tenureBase m (iter + 1) st')"

text \<open>
  The state before the first iteration. The generator, seeded in the source from
  \<^verbatim>\<open>random_device\<close>, is a parameter.
\<close>

definition tabu_inicial :: "TBool list \<Rightarrow> int \<Rightarrow> mt19937 \<Rightarrow> EstadoTabu" where
  "tabu_inicial vars costoInicial gen =
     \<lparr>ts_vars = vars, ts_tabuUntil = replicate (length vars) 0, ts_costoActual = costoInicial,
      ts_mejorSolucionGlobal = vars, ts_mejorCostoGlobal = costoInicial, ts_gen = gen\<rparr>"

definition busquedaTabu ::
  "Formula \<Rightarrow> TBool list \<Rightarrow> int \<Rightarrow> int \<Rightarrow> mt19937 \<Rightarrow> error + TBool list" where
  "busquedaTabu f vars maxIteraciones tenureBase gen =
     (case calcularCosto f vars of
        Inl e \<Rightarrow> Inl e
      | Inr costoInicial \<Rightarrow>
          (case tabu_bucle f tenureBase (nat maxIteraciones) 1 (tabu_inicial vars costoInicial gen) of
             Inl e \<Rightarrow> Inl e
           | Inr st \<Rightarrow> Inr (ts_mejorSolucionGlobal st)))"

subsection \<open>Formula::recocidoSimulado\<close>

record EstadoSA =
  sa_actual :: "TBool list"
  sa_costoActual :: int
  sa_mejorSolucionGlobal :: "TBool list"
  sa_mejorCostoGlobal :: int
  sa_gen :: mt19937

text \<open>
  One inner iteration at temperature \<open>T\<close>: draw a variable, flip it, and apply the
  Metropolis test. \<^verbatim>\<open>-delta / T\<close> negates the integer and divides as \<^verbatim>\<open>double\<close>.
\<close>

definition sa_paso :: "Formula \<Rightarrow> int \<times> int \<Rightarrow> real \<Rightarrow> EstadoSA \<Rightarrow> error + EstadoSA" where
  "sa_paso f varDist T st =
     (let (idx, gen1) = sortear varDist (sa_gen st) in
      if idx < 0 \<or> int (length (sa_actual st)) \<le> idx then Inl OutOfRange
      else
        let actual1 = (sa_actual st)[nat idx := flipT (sa_actual st ! nat idx)] in
        (case calcularCosto f actual1 of
           Inl e \<Rightarrow> Inl e
         | Inr nuevoCosto \<Rightarrow>
             (let delta = nuevoCosto - sa_costoActual st in
              if delta < 0 then
                (if nuevoCosto < sa_mejorCostoGlobal st
                 then Inr \<lparr>sa_actual = actual1, sa_costoActual = nuevoCosto,
                        sa_mejorSolucionGlobal = actual1, sa_mejorCostoGlobal = nuevoCosto,
                        sa_gen = gen1\<rparr>
                 else Inr (st\<lparr>sa_actual := actual1, sa_costoActual := nuevoCosto, sa_gen := gen1\<rparr>))
              else
                (let probabilidad = exp (real_of_int (- delta) / T);
                     (u, gen2) = sortear_real gen1
                 in if u < probabilidad
                    then Inr (st\<lparr>sa_actual := actual1, sa_costoActual := nuevoCosto, sa_gen := gen2\<rparr>)
                    else Inr (st\<lparr>sa_actual := actual1[nat idx := flipT (actual1 ! nat idx)],
                                sa_gen := gen2\<rparr>)))))"

fun sa_nivel :: "Formula \<Rightarrow> int \<times> int \<Rightarrow> real \<Rightarrow> nat \<Rightarrow> EstadoSA \<Rightarrow> error + EstadoSA" where
  "sa_nivel f varDist T 0 st = Inr st"
| "sa_nivel f varDist T (Suc m) st =
     (case sa_paso f varDist T st of
        Inl e \<Rightarrow> Inl e
      | Inr st' \<Rightarrow> sa_nivel f varDist T m st')"

definition T_min :: real where
  "T_min = 0.01"

text \<open>
  The cooling loop \<^verbatim>\<open>while (T > T_min)\<close> need not end (\<open>alpha \<ge> 1\<close>): \<open>None\<close> is a run
  that never returns. The default arguments of the source (\<open>tempInicial = 10\<close>,
  \<open>alpha = 0.95\<close>, \<open>iterPorTemp = 100\<close>) are left to the caller.
\<close>

partial_function (option) sa_enfriar ::
  "Formula \<Rightarrow> int \<times> int \<Rightarrow> real \<Rightarrow> nat \<Rightarrow> real \<Rightarrow> EstadoSA \<Rightarrow> (error + EstadoSA) option" where
  "sa_enfriar f varDist alpha iterPorTemp T st =
     (if T > T_min then
        (case sa_nivel f varDist T iterPorTemp st of
           Inl e \<Rightarrow> Some (Inl e)
         | Inr st' \<Rightarrow> sa_enfriar f varDist alpha iterPorTemp (T * alpha) st')
      else Some (Inr st))"

definition recocidoSimulado ::
  "Formula \<Rightarrow> TBool list \<Rightarrow> mt19937 \<Rightarrow> real \<Rightarrow> real \<Rightarrow> int \<Rightarrow>
   (error + (TBool list \<times> mt19937)) option" where
  "recocidoSimulado f vars gen tempInicial alpha iterPorTemp =
     (case calcularCosto f vars of
        Inl e \<Rightarrow> Some (Inl e)
      | Inr costoActual \<Rightarrow>
          (case uniform_int_distribution 0 (int (length vars) - 1) of
             Inl e \<Rightarrow> Some (Inl e)
           | Inr varDist \<Rightarrow>
               (case sa_enfriar f varDist alpha (nat iterPorTemp) tempInicial
                       \<lparr>sa_actual = vars, sa_costoActual = costoActual,
                        sa_mejorSolucionGlobal = vars, sa_mejorCostoGlobal = costoActual,
                        sa_gen = gen\<rparr> of
                  None \<Rightarrow> None
                | Some (Inl e) \<Rightarrow> Some (Inl e)
                | Some (Inr st) \<Rightarrow> Some (Inr (sa_mejorSolucionGlobal st, sa_gen st)))))"

subsection \<open>Formula::construccionGRASP and Formula::busquedaGRASP\<close>

text \<open>
  The scan \<^verbatim>\<open>for (int j = 0; j < n; j++)\<close> of one construction step: the candidates
  with their benefit, \<open>s_min\<close> and \<open>s_max\<close>. \<open>frecs[j]\<close> is read only for an unresolved
  \<open>j\<close>.
\<close>

fun candidatos_grasp ::
  "nat list \<Rightarrow> TBool list \<Rightarrow> Conteo list \<Rightarrow> int \<Rightarrow> int \<Rightarrow> (nat \<times> int) list \<Rightarrow>
   error + (int \<times> int \<times> (nat \<times> int) list)" where
  "candidatos_grasp [] vars frecs s_min s_max cands = Inr (s_min, s_max, cands)"
| "candidatos_grasp (j # js) vars frecs s_min s_max cands =
     (if vars ! j = Unknown then
        (if length frecs \<le> j then Inl OutOfRange
         else
           let beneficio = max (pos (frecs ! j)) (neg (frecs ! j)) in
           candidatos_grasp js vars frecs (min s_min beneficio) (max s_max beneficio)
             (cands @ [(j, beneficio)]))
      else candidatos_grasp js vars frecs s_min s_max cands)"

definition grasp_paso ::
  "real \<Rightarrow> TBool list \<times> Conteo list \<times> mt19937 \<Rightarrow> error + (TBool list \<times> Conteo list \<times> mt19937)" where
  "grasp_paso alpha st =
     (case st of (vars, frecs, gen) \<Rightarrow>
        (case candidatos_grasp [0..<length vars] vars frecs 2147483647 (- 2147483648) [] of
           Inl e \<Rightarrow> Inl e
         | Inr (s_min, s_max, cands) \<Rightarrow>
             (let umbral = real_of_int s_max - alpha * real_of_int (s_max - s_min);
                  rcl = map fst (filter (\<lambda>c. real_of_int (snd c) \<ge> umbral) cands)
              in case uniform_int_distribution 0 (int (length rcl) - 1) of
                   Inl e \<Rightarrow> Inl e
                 | Inr dis \<Rightarrow>
                     (let (r, gen') = sortear dis gen;
                          idElegido = rcl ! nat r;
                          valor = (pos (frecs ! idElegido) \<ge> neg (frecs ! idElegido))
                      in Inr (vars[idElegido := (if valor then TrueT else FalseT)],
                              frecs[idElegido := \<lparr>pos = - 99999, neg = - 99999\<rparr>],
                              gen')))))"

fun grasp_construir ::
  "real \<Rightarrow> nat \<Rightarrow> TBool list \<times> Conteo list \<times> mt19937 \<Rightarrow>
   error + (TBool list \<times> Conteo list \<times> mt19937)" where
  "grasp_construir alpha 0 st = Inr st"
| "grasp_construir alpha (Suc m) st =
     (case grasp_paso alpha st of
        Inl e \<Rightarrow> Inl e
      | Inr st' \<Rightarrow> grasp_construir alpha m st')"

definition construccionGRASP ::
  "TBool list \<Rightarrow> Conteo list \<Rightarrow> real \<Rightarrow> mt19937 \<Rightarrow> error + (TBool list \<times> mt19937)" where
  "construccionGRASP vars frecs alpha gen =
     (case grasp_construir alpha (length vars) (vars, frecs, gen) of
        Inl e \<Rightarrow> Inl e
      | Inr (vars', frecs', gen') \<Rightarrow> Inr (vars', gen'))"

text \<open>One trial of \<open>busquedaGRASP\<close>: construction from an all-\<open>Unknown\<close> vector, local search, acceptance.\<close>

definition grasp_ronda ::
  "Formula \<Rightarrow> nat \<Rightarrow> real \<Rightarrow> Conteo list \<Rightarrow> TBool list \<times> int \<times> mt19937 \<Rightarrow>
   error + (TBool list \<times> int \<times> mt19937)" where
  "grasp_ronda f n alpha frecsOriginales st =
     (case st of (mejorSolucionGlobal, mejorCostoGlobal, gen) \<Rightarrow>
        (case construccionGRASP (replicate n Unknown) frecsOriginales alpha gen of
           Inl e \<Rightarrow> Inl e
         | Inr (actual, gen') \<Rightarrow>
             (case busquedaLocal f actual of
                Inl e \<Rightarrow> Inl e
              | Inr actual' \<Rightarrow>
                  (case calcularCosto f actual' of
                     Inl e \<Rightarrow> Inl e
                   | Inr costoFinal \<Rightarrow>
                       if costoFinal < mejorCostoGlobal then Inr (actual', costoFinal, gen')
                       else Inr (mejorSolucionGlobal, mejorCostoGlobal, gen')))))"

fun grasp_bucle ::
  "Formula \<Rightarrow> nat \<Rightarrow> real \<Rightarrow> Conteo list \<Rightarrow> nat \<Rightarrow> TBool list \<times> int \<times> mt19937 \<Rightarrow>
   error + (TBool list \<times> int \<times> mt19937)" where
  "grasp_bucle f n alpha frecsOriginales 0 st = Inr st"
| "grasp_bucle f n alpha frecsOriginales (Suc m) st =
     (case grasp_ronda f n alpha frecsOriginales st of
        Inl e \<Rightarrow> Inl e
      | Inr st' \<Rightarrow> grasp_bucle f n alpha frecsOriginales m st')"

text \<open>The given \<open>vars\<close> contributes its size only; the best vector starts empty.\<close>

definition busquedaGRASP ::
  "Formula \<Rightarrow> TBool list \<Rightarrow> int \<Rightarrow> real \<Rightarrow> mt19937 \<Rightarrow> Conteo list \<Rightarrow>
   error + (TBool list \<times> mt19937)" where
  "busquedaGRASP f vars maxIteraciones alpha gen frecsOriginales =
     (case grasp_bucle f (length vars) alpha frecsOriginales (nat maxIteraciones)
             ([], 2147483647, gen) of
        Inl e \<Rightarrow> Inl e
      | Inr (mejorSolucionGlobal, mejorCostoGlobal, gen') \<Rightarrow> Inr (mejorSolucionGlobal, gen'))"

subsection \<open>Clausula::setSatisfaccion, aparece, actualizarFrecuencias\<close>

text \<open>
  \<open>ptrFrecuencias\<close> is a pointer that may be null: \<open>None\<close>. The loop decrements the
  count of the polarity of each literal of the clause.
\<close>

fun actualizarFrecuencias_desde :: "int list \<Rightarrow> Conteo list \<Rightarrow> error + Conteo list" where
  "actualizarFrecuencias_desde [] frecs = Inr frecs"
| "actualizarFrecuencias_desde (variable # resto) frecs =
     (let i = \<bar>variable\<bar> - 1 in
      if i < 0 \<or> int (length frecs) \<le> i then Inl OutOfRange
      else if variable > 0
        then actualizarFrecuencias_desde resto
               (frecs[nat i := (frecs ! nat i)\<lparr>pos := pos (frecs ! nat i) - 1\<rparr>])
        else actualizarFrecuencias_desde resto
               (frecs[nat i := (frecs ! nat i)\<lparr>neg := neg (frecs ! nat i) - 1\<rparr>]))"

definition actualizarFrecuencias :: "Clausula \<Rightarrow> Conteo list option \<Rightarrow> error + Conteo list option" where
  "actualizarFrecuencias c ptrFrecuencias =
     (case ptrFrecuencias of
        None \<Rightarrow> Inr None
      | Some frecs \<Rightarrow>
          (case actualizarFrecuencias_desde (variables c) frecs of
             Inl e \<Rightarrow> Inl e
           | Inr frecs' \<Rightarrow> Inr (Some frecs')))"

text \<open>
  The scan of \<open>setSatisfaccion\<close>: \<open>Some True\<close> when a literal is true (the early
  return), otherwise the flag \<open>esperanza\<close> in \<open>Inr (Some False)\<close> or \<open>Inr None\<close>.
\<close>

fun setSatisfaccion_desde :: "int list \<Rightarrow> TBool list \<Rightarrow> bool \<Rightarrow> error + TBool" where
  "setSatisfaccion_desde [] variablesGlobales esperanza =
     Inr (if \<not> esperanza then FalseT else Unknown)"
| "setSatisfaccion_desde (v # vs) variablesGlobales esperanza =
     (let indice = \<bar>v\<bar> - 1 in
      if indice < 0 \<or> int (length variablesGlobales) \<le> indice then Inl OutOfRange
      else
        let valorVar = variablesGlobales ! nat indice in
        if (v > 0 \<and> valorVar = TrueT) \<or> (v < 0 \<and> valorVar = FalseT) then Inr TrueT
        else setSatisfaccion_desde vs variablesGlobales (esperanza \<or> valorVar = Unknown))"

definition setSatisfaccion ::
  "Clausula \<Rightarrow> TBool list \<Rightarrow> Conteo list option \<Rightarrow> error + (Clausula \<times> Conteo list option)" where
  "setSatisfaccion c variablesGlobales ptrFrecuencias =
     (case setSatisfaccion_desde (variables c) variablesGlobales False of
        Inl e \<Rightarrow> Inl e
      | Inr s \<Rightarrow>
          if s = Unknown then Inr (c\<lparr>satisfaccion := Unknown\<rparr>, ptrFrecuencias)
          else
            (case actualizarFrecuencias (c\<lparr>satisfaccion := s\<rparr>) ptrFrecuencias of
               Inl e \<Rightarrow> Inl e
             | Inr ptr' \<Rightarrow> Inr (c\<lparr>satisfaccion := s\<rparr>, ptr')))"

definition aparece :: "Clausula \<Rightarrow> int \<Rightarrow> bool" where
  "aparece c variable = list_ex (\<lambda>v. \<bar>v\<bar> = variable + 1) (variables c)"

subsection \<open>Formula::solverConstructivo\<close>

text \<open>
  \<^verbatim>\<open>max_element\<close> with the comparator \<open>a.pos + a.neg < b.pos + b.neg\<close>: the index of the
  first element with the greatest total, \<open>None\<close> (the end iterator) on an empty vector.
\<close>

fun max_element_desde :: "Conteo list \<Rightarrow> nat list \<Rightarrow> nat \<Rightarrow> nat" where
  "max_element_desde frecs [] largest = largest"
| "max_element_desde frecs (i # resto) largest =
     (if pos (frecs ! largest) + neg (frecs ! largest) < pos (frecs ! i) + neg (frecs ! i)
      then max_element_desde frecs resto i
      else max_element_desde frecs resto largest)"

definition max_element :: "Conteo list \<Rightarrow> nat option" where
  "max_element frecs =
     (if frecs = [] then None else Some (max_element_desde frecs [1..<length frecs] 0))"

text \<open>The loop \<^verbatim>\<open>for (Clausula &clausula : clausulas)\<close> after a variable is assigned.\<close>

fun propagar ::
  "Clausula list \<Rightarrow> nat \<Rightarrow> TBool list \<Rightarrow> Conteo list \<Rightarrow> error + (Clausula list \<times> Conteo list)" where
  "propagar [] idModa variablesGlobales frecs = Inr ([], frecs)"
| "propagar (clausula # resto) idModa variablesGlobales frecs =
     (if satisfaccion clausula = Unknown \<and> aparece clausula (int idModa) then
        (case setSatisfaccion clausula variablesGlobales (Some frecs) of
           Inl e \<Rightarrow> Inl e
         | Inr (clausula', ptr') \<Rightarrow>
             (case propagar resto idModa variablesGlobales (case ptr' of None \<Rightarrow> frecs | Some frecs' \<Rightarrow> frecs') of
                Inl e \<Rightarrow> Inl e
              | Inr (resto', frecs'') \<Rightarrow> Inr (clausula' # resto', frecs'')))
      else
        (case propagar resto idModa variablesGlobales frecs of
           Inl e \<Rightarrow> Inl e
         | Inr (resto', frecs'') \<Rightarrow> Inr (clausula # resto', frecs'')))"

text \<open>
  The \<^verbatim>\<open>while (variablesPendientes > 0)\<close> loop. Dereferencing the end iterator (empty
  \<open>frecs\<close>) and writing \<open>variablesGlobales[idModa]\<close> past the end are out of range.
\<close>

fun solver_bucle ::
  "nat \<Rightarrow> Clausula list \<Rightarrow> TBool list \<Rightarrow> Conteo list \<Rightarrow> error + (Clausula list \<times> TBool list)" where
  "solver_bucle 0 cs variablesGlobales frecs = Inr (cs, variablesGlobales)"
| "solver_bucle (Suc variablesPendientes) cs variablesGlobales frecs =
     (case max_element frecs of
        None \<Rightarrow> Inl OutOfRange
      | Some idModa \<Rightarrow>
          (let moda = frecs ! idModa in
           if pos moda \<le> 0 \<and> neg moda \<le> 0 then Inr (cs, variablesGlobales)
           else if length variablesGlobales \<le> idModa then Inl OutOfRange
           else
             let valor = (pos moda \<ge> neg moda);
                 variablesGlobales' = variablesGlobales[idModa := (if valor then TrueT else FalseT)];
                 frecs' = frecs[idModa := \<lparr>pos = - 9999, neg = - 9999\<rparr>]
             in case propagar cs idModa variablesGlobales' frecs' of
                  Inl e \<Rightarrow> Inl e
                | Inr (cs', frecs'') \<Rightarrow>
                    solver_bucle variablesPendientes cs' variablesGlobales' frecs''))"

text \<open>The result is the formula with its updated caches and the completed assignment.\<close>

definition solverConstructivo ::
  "Formula \<Rightarrow> TBool list \<Rightarrow> Conteo list \<Rightarrow> error + (Formula \<times> TBool list)" where
  "solverConstructivo f variablesGlobales frecs =
     (case solver_bucle (length variablesGlobales) (clausulas f) variablesGlobales frecs of
        Inl e \<Rightarrow> Inl e
      | Inr (cs, variablesGlobales') \<Rightarrow>
          Inr (f\<lparr>clausulas := cs\<rparr>,
               map (\<lambda>x. if x = Unknown then FalseT else x) variablesGlobales'))"

subsection \<open>Invariants used in the proofs\<close>

text \<open>
  The move recorded by the scan, applied to the assignment as the scan leaves it, costs
  at most the running cost plus the recorded delta.
\<close>

definition movimientoAcotado :: "Formula \<Rightarrow> int \<Rightarrow> TBool list \<Rightarrow> int \<Rightarrow> int \<Rightarrow> bool" where
  "movimientoAcotado f costoActual cur idx d =
     (idx = - 1 \<or>
      (0 \<le> idx \<and> idx < int (length cur) \<and>
       costo f (cur[nat idx := flipT (cur ! nat idx)]) \<le> costoActual + d))"

definition mejorAcotado :: "Formula \<Rightarrow> nat \<Rightarrow> int \<Rightarrow> EstadoTabu \<Rightarrow> bool" where
  "mejorAcotado f n c0 st =
     (length (ts_vars st) = n \<and> length (ts_mejorSolucionGlobal st) = n \<and>
      costo f (ts_mejorSolucionGlobal st) \<le> ts_mejorCostoGlobal st \<and>
      ts_mejorCostoGlobal st \<le> c0)"

definition costoConsistente :: "Formula \<Rightarrow> EstadoTabu \<Rightarrow> bool" where
  "costoConsistente f st =
     (Unknown \<notin> set (ts_vars st) \<and>
      calcularCosto f (ts_vars st) = Inr (ts_costoActual st) \<and>
      calcularCosto f (ts_mejorSolucionGlobal st) = Inr (ts_mejorCostoGlobal st))"

definition mejorSA :: "Formula \<Rightarrow> nat \<Rightarrow> int \<Rightarrow> EstadoSA \<Rightarrow> bool" where
  "mejorSA f n c0 st =
     (length (sa_actual st) = n \<and> length (sa_mejorSolucionGlobal st) = n \<and>
      costo f (sa_mejorSolucionGlobal st) = sa_mejorCostoGlobal st \<and>
      sa_mejorCostoGlobal st \<le> c0)"



section \<open>Cost evaluation\<close>

lemma esSatisfecha_desde_rango:
  "list_all (enRango (length vars)) vs \<Longrightarrow>
   esSatisfecha_desde vs vars = Inr (list_ex (literalCierto vars) vs)"
  by (induction vs) (auto simp: enRango_def literalCierto_def Let_def)

lemma esSatisfecha_rango:
  "list_all (enRango (length vars)) (variables c) \<Longrightarrow>
   esSatisfecha c vars = Inr (satisface vars c)"
  by (simp add: esSatisfecha_def satisface_def esSatisfecha_desde_rango)

lemma calcularCosto_desde_rango:
  "list_all (\<lambda>c. list_all (enRango (length vars)) (variables c)) cs \<Longrightarrow>
   calcularCosto_desde cs vars k =
     Inr (k + int (length (filter (\<lambda>c. \<not> satisface vars c) cs)))"
  by (induction cs arbitrary: k) (auto simp: esSatisfecha_rango)

lemma calcularCosto_rango:
  "bienFormada (length vars) f \<Longrightarrow> calcularCosto f vars = Inr (costo f vars)"
  by (simp add: calcularCosto_def costo_def bienFormada_def calcularCosto_desde_rango)


lemma costo_mset:
  "costo f vars =
     int (size (filter_mset (\<lambda>m. \<not> (\<exists>v\<in>#m. literalCierto vars v))
                  (mset (map (\<lambda>c. mset (variables c)) (clausulas f)))))"
proof -
  have "length (filter (\<lambda>c. \<not> satisface vars c) (clausulas f)) =
        size (filter_mset (\<lambda>c. \<not> satisface vars c) (mset (clausulas f)))"
    by (metis mset_filter size_mset)
  also have "\<dots> = size (filter_mset (\<lambda>m. \<not> (\<exists>v\<in>#m. literalCierto vars v))
                  (image_mset (\<lambda>c. mset (variables c)) (mset (clausulas f))))"
    by (simp add: filter_mset_image_mset satisface_def list_ex_iff)
  finally show ?thesis by (simp add: costo_def)
qed

lemma bienFormada_mset:
  "bienFormada n f \<longleftrightarrow>
     (\<forall>m\<in>#mset (map (\<lambda>c. mset (variables c)) (clausulas f)). \<forall>v\<in>#m. enRango n v)"
  by (auto simp: bienFormada_def list_all_iff)

lemma calcularCosto_desde_append:
  "calcularCosto_desde (xs @ ys) vars k =
     (case calcularCosto_desde xs vars k of Inl e \<Rightarrow> Inl e | Inr k' \<Rightarrow> calcularCosto_desde ys vars k')"
  by (induction xs arbitrary: k) (auto split: sum.splits)

lemma calcularCosto_desde_suma:
  "calcularCosto_desde cs vars (k + d) =
     (case calcularCosto_desde cs vars k of Inl e \<Rightarrow> Inl e | Inr k' \<Rightarrow> Inr (k' + d))"
proof (induction cs arbitrary: k)
  case Nil
  then show ?case by simp
next
  case (Cons a cs)
  have e: "calcularCosto_desde cs vars (k + d + 1) = calcularCosto_desde cs vars (k + 1 + d)"
    by (simp add: add.commute add.left_commute)
  show ?case
    by (cases "esSatisfecha a vars") (simp_all add: e Cons.IH)
qed

text \<open>
  Claim C9. A clause with no literals is unsatisfied under every assignment:
  \<open>esSatisfecha\<close> returns false for it whatever the assignment vector, and inserting
  such a clause anywhere in a formula raises \<open>calcularCosto\<close> by exactly one.
\<close>

theorem clausula_vacia_cuenta_uno:
  "variables c = [] \<Longrightarrow>
   esSatisfecha c vars = Inr False \<and>
   calcularCosto \<lparr>clausulas = xs @ c # ys\<rparr> vars =
     (case calcularCosto \<lparr>clausulas = xs @ ys\<rparr> vars of
        Inl e \<Rightarrow> Inl e
      | Inr k \<Rightarrow> Inr (k + 1))"
proof -
  assume vacia: "variables c = []"
  then have insat: "esSatisfecha c vars = Inr False"
    by (simp add: esSatisfecha_def)
  have "calcularCosto_desde (c # ys) vars k = calcularCosto_desde ys vars (k + 1)" for k
    by (simp add: insat)
  then have "calcularCosto_desde (xs @ c # ys) vars 0 =
     (case calcularCosto_desde (xs @ ys) vars 0 of Inl e \<Rightarrow> Inl e | Inr k \<Rightarrow> Inr (k + 1))"
    by (simp add: calcularCosto_desde_append calcularCosto_desde_suma split: sum.splits)
  with insat show ?thesis
    by (simp add: calcularCosto_def)
qed

theorem clausula_vacia_cuenta_uno_witness:
  "variables \<lparr>variables = [], satisfaccion = Unknown\<rparr> = [] \<and>
   esSatisfecha \<lparr>variables = [], satisfaccion = Unknown\<rparr> [TrueT, FalseT] = Inr False \<and>
   calcularCosto \<lparr>clausulas = [\<lparr>variables = [1, -2], satisfaccion = Unknown\<rparr>] @
       \<lparr>variables = [], satisfaccion = Unknown\<rparr> # [\<lparr>variables = [2], satisfaccion = Unknown\<rparr>]\<rparr>
     [TrueT, FalseT] = Inr 2"
  using clausula_vacia_cuenta_uno [of "\<lparr>variables = [], satisfaccion = Unknown\<rparr>" "[TrueT, FalseT]"
      "[\<lparr>variables = [1, -2], satisfaccion = Unknown\<rparr>]" "[\<lparr>variables = [2], satisfaccion = Unknown\<rparr>]"]
  by (simp add: calcularCosto_def esSatisfecha_def)

text \<open>
  Claim C2. Whenever \<open>calcularCosto\<close> returns, its value lies between 0 and the number
  of clauses. For a formula whose literals are in range for the assignment vector it
  does return, and every formula with the same clauses up to the order of the clauses
  and the order of the literals inside each clause (equal multisets of literal
  multisets) returns the same cost.
\<close>

theorem costo_acotado_e_invariante:
  "(\<forall>k. calcularCosto f vars = Inr k \<longrightarrow> 0 \<le> k \<and> k \<le> int (length (clausulas f))) \<and>
   (bienFormada (length vars) f \<longrightarrow>
      (\<exists>k. calcularCosto f vars = Inr k \<and>
           (\<forall>g. mset (map (\<lambda>c. mset (variables c)) (clausulas g)) =
                  mset (map (\<lambda>c. mset (variables c)) (clausulas f)) \<longrightarrow>
                calcularCosto g vars = Inr k)))"
proof (intro conjI allI impI)
  fix k assume "calcularCosto f vars = Inr k"
  then show "0 \<le> k" "k \<le> int (length (clausulas f))"
    using calcularCosto_cotas by blast+
next
  assume bf: "bienFormada (length vars) f"
  have "calcularCosto g vars = Inr (costo f vars)"
    if perm: "mset (map (\<lambda>c. mset (variables c)) (clausulas g)) =
              mset (map (\<lambda>c. mset (variables c)) (clausulas f))" for g
  proof -
    from bf perm have "bienFormada (length vars) g"
      by (simp add: bienFormada_mset)
    moreover from perm have "costo g vars = costo f vars"
      by (simp add: costo_mset)
    ultimately show ?thesis
      by (simp add: calcularCosto_rango)
  qed
  with bf show "\<exists>k. calcularCosto f vars = Inr k \<and>
           (\<forall>g. mset (map (\<lambda>c. mset (variables c)) (clausulas g)) =
                  mset (map (\<lambda>c. mset (variables c)) (clausulas f)) \<longrightarrow>
                calcularCosto g vars = Inr k)"
    by (simp add: calcularCosto_rango)
qed


theorem costo_acotado_e_invariante_witness:
  "bienFormada (length [TrueT, Unknown])
     (Formula_de [Clausula_de [1, 2], Clausula_de [-1, 2], Clausula_de [-2]]) \<and>
   calcularCosto (Formula_de [Clausula_de [1, 2], Clausula_de [-1, 2], Clausula_de [-2]])
     [TrueT, Unknown] = Inr 2 \<and>
   calcularCosto (Formula_de [Clausula_de [-2], Clausula_de [2, 1], Clausula_de [2, -1]])
     [TrueT, Unknown] = Inr 2"
proof -
  let ?f = "Formula_de [Clausula_de [1, 2], Clausula_de [-1, 2], Clausula_de [-2]]"
  let ?g = "Formula_de [Clausula_de [-2], Clausula_de [2, 1], Clausula_de [2, -1]]"
  let ?v = "[TrueT, Unknown]"
  have bf: "bienFormada (length ?v) ?f"
    by (simp add: bienFormada_def enRango_def Formula_de_def Clausula_de_def)
  have val: "calcularCosto ?f ?v = Inr 2"
    by (simp add: calcularCosto_def esSatisfecha_def Formula_de_def Clausula_de_def)
  have perm: "mset (map (\<lambda>c. mset (variables c)) (clausulas ?g)) =
              mset (map (\<lambda>c. mset (variables c)) (clausulas ?f))"
    by (simp add: Formula_de_def Clausula_de_def add_mset_commute)
  from costo_acotado_e_invariante [of ?f ?v] bf val perm
  have "calcularCosto ?g ?v = Inr 2"
    by (metis sum.inject(2))
  with bf val show ?thesis by simp
qed

section \<open>Hill-climbing local search\<close>

lemma flipT_flipT: "x \<noteq> Unknown \<Longrightarrow> flipT (flipT x) = x"
  by (cases x) (simp_all add: flipT_def)

lemma flipT_conocido: "flipT x \<noteq> Unknown"
  by (simp add: flipT_def)

lemma sin_Unknown_update: "Unknown \<notin> set vars \<Longrightarrow> Unknown \<notin> set (vars[i := flipT y])"
  using set_update_subset_insert [of vars i "flipT y"] flipT_conocido [of y] by auto

lemma flip_revertir:
  "Unknown \<notin> set vars \<Longrightarrow> i < length vars \<Longrightarrow>
   (vars[i := flipT (vars ! i)])[i := flipT (vars[i := flipT (vars ! i)] ! i)] = vars"
proof -
  assume "Unknown \<notin> set vars" "i < length vars"
  then have "vars ! i \<noteq> Unknown" by (metis nth_mem)
  with \<open>i < length vars\<close> show ?thesis by (simp add: flipT_flipT)
qed

lemma probar_sin_mejora:
  "Unknown \<notin> set vars \<Longrightarrow> probar f cands vars c = Inr (vars', c', False) \<Longrightarrow>
   vars' = vars \<and> c' = c \<and>
   (\<forall>idx\<in>set cands. 0 \<le> idx \<and> idx < int (length vars) \<and>
      (\<exists>k. calcularCosto f (vars[nat idx := flipT (vars ! nat idx)]) = Inr k \<and> c \<le> k))"
proof (induction cands)
  case Nil
  then show ?case by simp
next
  case (Cons idx resto)
  from Cons.prems(2) have rango: "0 \<le> idx" "idx < int (length vars)"
    by (auto split: if_splits)
  then have i: "nat idx < length vars" by simp
  let ?vars1 = "vars[nat idx := flipT (vars ! nat idx)]"
  from Cons.prems(2) rango obtain k where
    k: "calcularCosto f ?vars1 = Inr k" "\<not> k < c"
    and resto: "probar f resto (?vars1[nat idx := flipT (?vars1 ! nat idx)]) c = Inr (vars', c', False)"
    by (auto simp: Let_def split: sum.splits if_splits)
  from resto have "probar f resto vars c = Inr (vars', c', False)"
    by (simp only: flip_revertir [OF Cons.prems(1) i])
  with Cons.IH Cons.prems(1) have
    "vars' = vars \<and> c' = c \<and>
     (\<forall>idx\<in>set resto. 0 \<le> idx \<and> idx < int (length vars) \<and>
        (\<exists>k. calcularCosto f (vars[nat idx := flipT (vars ! nat idx)]) = Inr k \<and> c \<le> k))"
    by blast
  with k rango show ?case by auto
qed

lemma probar_mejora:
  "probar f cands vars c = Inr (vars', c', True) \<Longrightarrow>
   calcularCosto f vars' = Inr c' \<and> length vars' = length vars \<and>
   (Unknown \<notin> set vars \<longrightarrow> Unknown \<notin> set vars')"
proof (induction cands arbitrary: vars)
  case Nil
  then show ?case by simp
next
  case (Cons idx resto)
  let ?vars1 = "vars[nat idx := flipT (vars ! nat idx)]"
  let ?vars2 = "?vars1[nat idx := flipT (?vars1 ! nat idx)]"
  from Cons.prems obtain k where k: "calcularCosto f ?vars1 = Inr k"
    by (auto simp: Let_def split: sum.splits if_splits)
  show ?case
  proof (cases "k < c")
    case True
    with Cons.prems k have "vars' = ?vars1" "c' = k"
      by (auto simp: Let_def split: if_splits)
    with k show ?thesis by (simp add: sin_Unknown_update)
  next
    case False
    with Cons.prems k have "probar f resto ?vars2 c = Inr (vars', c', True)"
      by (auto simp: Let_def split: if_splits)
    from Cons.IH [OF this] show ?thesis
      by (auto dest: sin_Unknown_update)
  qed
qed

lemma bucle_optimo:
  "calcularCosto f vars = Inr c \<Longrightarrow> Unknown \<notin> set vars \<Longrightarrow>
   busquedaLocal_bucle f vars c = Inr v1 \<Longrightarrow>
   Unknown \<notin> set v1 \<and> length v1 = length vars \<and>
   (\<exists>c1 cands. calcularCosto f v1 = Inr c1 \<and> candidatos f v1 = Inr cands \<and>
      probar f cands v1 c1 = Inr (v1, c1, False))"
proof (induction f vars c rule: busquedaLocal_bucle.induct)
  case (1 f vars costoActual)
  from "1.prems"(3) obtain cands vars' costo' mejora where
    cands: "candidatos f vars = Inr cands"
    and pr: "probar f cands vars costoActual = Inr (vars', costo', mejora)"
    by (subst (asm) busquedaLocal_bucle.simps) (auto split: sum.splits)
  show ?case
  proof (cases mejora)
    case True
    with "1.prems"(3) cands pr have rec: "busquedaLocal_bucle f vars' costo' = Inr v1"
      by (subst (asm) busquedaLocal_bucle.simps) simp
    from pr True have "probar f cands vars costoActual = Inr (vars', costo', True)" by simp
    from probar_mejora [OF this] "1.prems"(2)
    have m: "calcularCosto f vars' = Inr costo'" "length vars' = length vars" "Unknown \<notin> set vars'"
      by simp_all
    from "1.IH" [OF cands pr refl refl True m(1) m(3) rec] m(2)
    show ?thesis by simp
  next
    case False
    with "1.prems"(3) cands pr have v1: "v1 = vars'"
      by (subst (asm) busquedaLocal_bucle.simps) simp
    from pr False have "probar f cands vars costoActual = Inr (vars', costo', False)" by simp
    from probar_sin_mejora [OF "1.prems"(2) this] have eq: "vars' = vars" "costo' = costoActual"
      by simp_all
    with v1 pr False cands "1.prems"(1,2) show ?thesis by auto
  qed
qed

lemma candidatos_desde_rango:
  "list_all (\<lambda>c. list_all (enRango (length vars)) (variables c)) cs \<Longrightarrow>
   \<exists>xs. candidatos_desde cs vars = Inr xs \<and> (\<forall>i\<in>set xs. 0 \<le> i \<and> i < int (length vars))"
proof (induction cs)
  case Nil
  then show ?case by simp
next
  case (Cons c cs)
  then obtain xs where xs: "candidatos_desde cs vars = Inr xs"
    "\<forall>i\<in>set xs. 0 \<le> i \<and> i < int (length vars)"
    by auto
  from Cons.prems have "\<forall>v\<in>set (variables c). 0 \<le> \<bar>v\<bar> - 1 \<and> \<bar>v\<bar> - 1 < int (length vars)"
    by (auto simp: list_all_iff enRango_def)
  with Cons.prems xs show ?case
    by (auto simp: esSatisfecha_rango)
qed

lemma candidatos_rango:
  "bienFormada (length vars) f \<Longrightarrow>
   \<exists>cands. candidatos f vars = Inr cands \<and> (\<forall>i\<in>set cands. 0 \<le> i \<and> i < int (length vars))"
  using candidatos_desde_rango [of vars "clausulas f"]
  by (auto simp: candidatos_def bienFormada_def)

lemma probar_total:
  "bienFormada (length vars) f \<Longrightarrow> \<forall>i\<in>set cands. 0 \<le> i \<and> i < int (length vars) \<Longrightarrow>
   \<exists>r. probar f cands vars c = Inr r \<and> length (fst r) = length vars"
proof (induction cands arbitrary: vars)
  case Nil
  then show ?case by simp
next
  case (Cons idx resto)
  let ?vars1 = "vars[nat idx := flipT (vars ! nat idx)]"
  let ?vars2 = "?vars1[nat idx := flipT (?vars1 ! nat idx)]"
  have l2: "length ?vars2 = length vars" by simp
  from Cons.prems(1) have k: "calcularCosto f ?vars1 = Inr (costo f ?vars1)"
    by (simp add: calcularCosto_rango)
  from Cons.prems have "bienFormada (length ?vars2) f"
    "\<forall>i\<in>set resto. 0 \<le> i \<and> i < int (length ?vars2)"
    by simp_all
  from Cons.IH [OF this] obtain r where
    "probar f resto ?vars2 c = Inr r" "length (fst r) = length vars"
    by auto
  with k Cons.prems(2) show ?case
    by (cases r) (auto simp: Let_def)
qed

lemma bucle_total:
  "bienFormada (length vars) f \<Longrightarrow>
   \<exists>v1. busquedaLocal_bucle f vars c = Inr v1 \<and> length v1 = length vars"
proof (induction f vars c rule: busquedaLocal_bucle.induct)
  case (1 f vars costoActual)
  from candidatos_rango [OF "1.prems"] obtain cands where
    cands: "candidatos f vars = Inr cands" "\<forall>i\<in>set cands. 0 \<le> i \<and> i < int (length vars)"
    by auto
  from probar_total [OF "1.prems" cands(2)] obtain vars' c' m where
    pr: "probar f cands vars costoActual = Inr (vars', c', m)" "length vars' = length vars"
    by (metis fst_conv prod_cases3)
  show ?case
  proof (cases m)
    case True
    from "1.IH" [OF cands(1) pr(1) refl refl True] "1.prems" pr(2)
    obtain v1 where "busquedaLocal_bucle f vars' c' = Inr v1" "length v1 = length vars"
      by auto
    with cands pr True show ?thesis
      by (subst busquedaLocal_bucle.simps) simp
  next
    case False
    with cands pr show ?thesis
      by (subst busquedaLocal_bucle.simps) simp
  qed
qed

lemma busquedaLocal_total:
  "bienFormada (length vars) f \<Longrightarrow>
   \<exists>v1. busquedaLocal f vars = Inr v1 \<and> length v1 = length vars"
  using bucle_total [of vars f "costo f vars"]
  by (simp add: busquedaLocal_def calcularCosto_rango)

text \<open>
  Claim C5 (amended). For a complete assignment (no \<open>Unknown\<close> entry) over a formula
  whose literals are in range, \<open>busquedaLocal\<close> returns, a second run on its output
  returns that output unchanged, and at the output no flip of a candidate variable
  yields a cost below the current one.
\<close>

theorem busquedaLocal_idempotente:
  assumes "Unknown \<notin> set vars" and "bienFormada (length vars) f"
  shows "\<exists>v1. busquedaLocal f vars = Inr v1 \<and> busquedaLocal f v1 = Inr v1 \<and>
           (\<exists>c1 cands. calcularCosto f v1 = Inr c1 \<and> candidatos f v1 = Inr cands \<and>
              (\<forall>idx\<in>set cands.
                 \<exists>k. calcularCosto f (v1[nat idx := flipT (v1 ! nat idx)]) = Inr k \<and> c1 \<le> k))"
proof -
  from busquedaLocal_total [OF assms(2)] obtain v1 where
    v1: "busquedaLocal f vars = Inr v1" by blast
  then obtain c where c: "calcularCosto f vars = Inr c" "busquedaLocal_bucle f vars c = Inr v1"
    by (auto simp: busquedaLocal_def split: sum.splits)
  from bucle_optimo [OF c(1) assms(1) c(2)] obtain c1 cands where
    opt: "Unknown \<notin> set v1" "calcularCosto f v1 = Inr c1" "candidatos f v1 = Inr cands"
      "probar f cands v1 c1 = Inr (v1, c1, False)"
    by blast
  have "busquedaLocal_bucle f v1 c1 = Inr v1"
    by (subst busquedaLocal_bucle.simps) (simp add: opt)
  then have again: "busquedaLocal f v1 = Inr v1"
    by (simp add: busquedaLocal_def opt)
  from probar_sin_mejora [OF opt(1) opt(4)]
  have "\<forall>idx\<in>set cands.
          \<exists>k. calcularCosto f (v1[nat idx := flipT (v1 ! nat idx)]) = Inr k \<and> c1 \<le> k"
    by blast
  with v1 again opt show ?thesis by blast
qed

theorem busquedaLocal_idempotente_witness:
  "Unknown \<notin> set [TrueT, FalseT] \<and>
   bienFormada (length [TrueT, FalseT])
     (Formula_de [Clausula_de [1, 2], Clausula_de [-1, 2], Clausula_de [-2]]) \<and>
   (\<exists>v1. busquedaLocal (Formula_de [Clausula_de [1, 2], Clausula_de [-1, 2], Clausula_de [-2]])
            [TrueT, FalseT] = Inr v1 \<and>
         busquedaLocal (Formula_de [Clausula_de [1, 2], Clausula_de [-1, 2], Clausula_de [-2]])
            v1 = Inr v1)"
proof -
  let ?f = "Formula_de [Clausula_de [1, 2], Clausula_de [-1, 2], Clausula_de [-2]]"
  have sin: "Unknown \<notin> set [TrueT, FalseT]" by simp
  have bf: "bienFormada (length [TrueT, FalseT]) ?f"
    by (simp add: bienFormada_def enRango_def Formula_de_def Clausula_de_def)
  from busquedaLocal_idempotente [OF sin bf] sin bf show ?thesis by blast
qed

text \<open>
  The claim as stated (every assignment) fails when an entry is \<open>Unknown\<close>: the toggle
  sends \<open>Unknown\<close> to \<open>TrueT\<close> and the revert sends that to \<open>FalseT\<close>, so the last
  round changes the assignment without updating the current cost, and a second run
  finds an improving flip.
\<close>

theorem busquedaLocal_Unknown_counterexample:
  "busquedaLocal
     (Formula_de [Clausula_de [1], Clausula_de [-1, -2], Clausula_de [-1, -2], Clausula_de [1, -2]])
     [FalseT, Unknown] = Inr [FalseT, FalseT] \<and>
   busquedaLocal
     (Formula_de [Clausula_de [1], Clausula_de [-1, -2], Clausula_de [-1, -2], Clausula_de [1, -2]])
     [FalseT, FalseT] = Inr [TrueT, FalseT]"
  by (simp add: busquedaLocal_def busquedaLocal_bucle.simps candidatos_def calcularCosto_def
      esSatisfecha_def flipT_def Formula_de_def Clausula_de_def Let_def)

section \<open>Constructive heuristic\<close>

lemma actualizarFrecuencias_desde_ok:
  "list_all (enRango (length frecs)) vs \<Longrightarrow>
   \<exists>frecs'. actualizarFrecuencias_desde vs frecs = Inr frecs' \<and> length frecs' = length frecs"
proof (induction vs arbitrary: frecs)
  case Nil
  then show ?case by simp
next
  case (Cons v vs)
  from Cons.prems have "enRango (length frecs) v" by simp
  then have r: "0 \<le> \<bar>v\<bar> - 1" "\<bar>v\<bar> - 1 < int (length frecs)"
    unfolding enRango_def by linarith+
  from Cons.prems have rest: "list_all (enRango (length frecs)) vs"
    by simp
  let ?i = "nat (\<bar>v\<bar> - 1)"
  show ?case
  proof (cases "v > 0")
    case True
    let ?frecs1 = "frecs[?i := (frecs ! ?i)\<lparr>pos := pos (frecs ! ?i) - 1\<rparr>]"
    from rest have "list_all (enRango (length ?frecs1)) vs" by simp
    from Cons.IH [OF this] True r show ?thesis by (auto simp: Let_def)
  next
    case False
    let ?frecs1 = "frecs[?i := (frecs ! ?i)\<lparr>neg := neg (frecs ! ?i) - 1\<rparr>]"
    from rest have "list_all (enRango (length ?frecs1)) vs" by simp
    from Cons.IH [OF this] False r show ?thesis by (auto simp: Let_def)
  qed
qed

lemma setSatisfaccion_desde_ok:
  "list_all (enRango (length vg)) vs \<Longrightarrow> \<exists>s. setSatisfaccion_desde vs vg e = Inr s"
  by (induction vs arbitrary: e) (auto simp: enRango_def Let_def)

lemma setSatisfaccion_ok:
  assumes "list_all (enRango n) (variables c)" and "length vg = n" and "length frecs = n"
  shows "\<exists>c' frecs'. setSatisfaccion c vg (Some frecs) = Inr (c', Some frecs') \<and>
           variables c' = variables c \<and> length frecs' = n"
proof -
  from assms obtain s where s: "setSatisfaccion_desde (variables c) vg False = Inr s"
    using setSatisfaccion_desde_ok [of vg "variables c" False] by auto
  from assms obtain frecs' where
    f: "actualizarFrecuencias_desde (variables c) frecs = Inr frecs'" "length frecs' = n"
    using actualizarFrecuencias_desde_ok [of frecs "variables c"] by auto
  show ?thesis
    by (cases "s = Unknown") (simp_all add: setSatisfaccion_def actualizarFrecuencias_def s f assms)
qed

lemma propagar_ok:
  "list_all (\<lambda>c. list_all (enRango n) (variables c)) cs \<Longrightarrow> length vg = n \<Longrightarrow>
   length frecs = n \<Longrightarrow>
   \<exists>cs' frecs'. propagar cs idModa vg frecs = Inr (cs', frecs') \<and>
      list_all (\<lambda>c. list_all (enRango n) (variables c)) cs' \<and> length frecs' = n"
proof (induction cs arbitrary: frecs)
  case Nil
  then show ?case by simp
next
  case (Cons c cs)
  from Cons.prems have c: "list_all (enRango n) (variables c)"
    and cs: "list_all (\<lambda>c. list_all (enRango n) (variables c)) cs"
    by simp_all
  show ?case
  proof (cases "satisfaccion c = Unknown \<and> aparece c (int idModa)")
    case True
    from setSatisfaccion_ok [OF c Cons.prems(2,3)] obtain c' frecs1 where
      s: "setSatisfaccion c vg (Some frecs) = Inr (c', Some frecs1)"
        "variables c' = variables c" "length frecs1 = n"
      by blast
    from Cons.IH [OF cs Cons.prems(2) s(3)] obtain cs' frecs' where
      "propagar cs idModa vg frecs1 = Inr (cs', frecs')"
      "list_all (\<lambda>c. list_all (enRango n) (variables c)) cs'" "length frecs' = n"
      by blast
    with True s c show ?thesis by simp
  next
    case False
    from Cons.IH [OF cs Cons.prems(2,3)] obtain cs' frecs' where
      "propagar cs idModa vg frecs = Inr (cs', frecs')"
      "list_all (\<lambda>c. list_all (enRango n) (variables c)) cs'" "length frecs' = n"
      by blast
    with False c show ?thesis by auto
  qed
qed

lemma max_element_desde_rango:
  "largest < length frecs \<Longrightarrow> \<forall>i\<in>set is. i < length frecs \<Longrightarrow>
   max_element_desde frecs is largest < length frecs"
  by (induction "is" arbitrary: largest) auto

lemma max_element_rango:
  "frecs \<noteq> [] \<Longrightarrow> \<exists>i. max_element frecs = Some i \<and> i < length frecs"
  by (simp add: max_element_def max_element_desde_rango)

lemma solver_bucle_length:
  "solver_bucle p cs vg frecs = Inr (cs', vg') \<Longrightarrow> length vg' = length vg"
proof (induction p arbitrary: cs vg frecs)
  case 0
  then show ?case by simp
next
  case (Suc p)
  from Suc.prems obtain idModa where m: "max_element frecs = Some idModa"
    by (auto split: option.splits)
  show ?case
  proof (cases "pos (frecs ! idModa) \<le> 0 \<and> neg (frecs ! idModa) \<le> 0")
    case True
    with Suc.prems m show ?thesis by (simp add: Let_def)
  next
    case False
    let ?vg1 = "vg[idModa := (if pos (frecs ! idModa) \<ge> neg (frecs ! idModa) then TrueT else FalseT)]"
    from Suc.prems m False obtain cs1 frecs1 where
      "solver_bucle p cs1 ?vg1 frecs1 = Inr (cs', vg')"
      by (auto simp: Let_def split: if_splits sum.splits)
    from Suc.IH [OF this] show ?thesis by simp
  qed
qed

lemma solver_bucle_ok:
  "list_all (\<lambda>c. list_all (enRango n) (variables c)) cs \<Longrightarrow> length vg = n \<Longrightarrow>
   length frecs = n \<Longrightarrow> p \<le> n \<Longrightarrow> \<exists>r. solver_bucle p cs vg frecs = Inr r"
proof (induction p arbitrary: cs vg frecs)
  case 0
  then show ?case by simp
next
  case (Suc p)
  from Suc.prems have "frecs \<noteq> []" by auto
  from max_element_rango [OF this] obtain idModa where
    m: "max_element frecs = Some idModa" "idModa < length frecs"
    by blast
  show ?case
  proof (cases "pos (frecs ! idModa) \<le> 0 \<and> neg (frecs ! idModa) \<le> 0")
    case True
    with m show ?thesis by (simp add: Let_def)
  next
    case False
    let ?vg1 = "vg[idModa := (if pos (frecs ! idModa) \<ge> neg (frecs ! idModa) then TrueT else FalseT)]"
    let ?frecs1 = "frecs[idModa := \<lparr>pos = - 9999, neg = - 9999\<rparr>]"
    from Suc.prems have l: "length ?vg1 = n" "length ?frecs1 = n" by simp_all
    from propagar_ok [OF Suc.prems(1) l] obtain cs1 frecs2 where
      pr: "propagar cs idModa ?vg1 ?frecs1 = Inr (cs1, frecs2)"
        "list_all (\<lambda>c. list_all (enRango n) (variables c)) cs1" "length frecs2 = n"
      by blast
    from Suc.prems have "p \<le> n" by simp
    from Suc.IH [OF pr(2) l(1) pr(3) this] obtain r where
      "solver_bucle p cs1 ?vg1 frecs2 = Inr r" by blast
    with m False pr(1) Suc.prems(2,3) show ?thesis
      by (auto simp: Let_def)
  qed
qed

text \<open>
  Claim C3. Whenever \<open>solverConstructivo\<close> returns, the assignment keeps its length and
  has no \<open>Unknown\<close> entry; and on every input whose literals are in range, with one
  frequency entry per variable, it does return.
\<close>

theorem solverConstructivo_completa:
  "(\<forall>f' vg'. solverConstructivo f vg frecs = Inr (f', vg') \<longrightarrow>
      length vg' = length vg \<and> list_all (\<lambda>x. x = TrueT \<or> x = FalseT) vg') \<and>
   (bienFormada (length vg) f \<and> length frecs = length vg \<longrightarrow>
      (\<exists>f' vg'. solverConstructivo f vg frecs = Inr (f', vg')))"
proof (intro conjI allI impI)
  fix f' vg'
  assume r: "solverConstructivo f vg frecs = Inr (f', vg')"
  then obtain cs vg1 where b: "solver_bucle (length vg) (clausulas f) vg frecs = Inr (cs, vg1)"
    and vg': "vg' = map (\<lambda>x. if x = Unknown then FalseT else x) vg1"
    by (auto simp: solverConstructivo_def split: sum.splits)
  from solver_bucle_length [OF b] vg' show "length vg' = length vg" by simp
  from vg' have "Unknown \<notin> set vg'" by auto
  then show "list_all (\<lambda>x. x = TrueT \<or> x = FalseT) vg'"
    unfolding list_all_iff by (metis TBool.exhaust)
next
  assume "bienFormada (length vg) f \<and> length frecs = length vg"
  then have "\<exists>r. solver_bucle (length vg) (clausulas f) vg frecs = Inr r"
    using solver_bucle_ok [of "length vg" "clausulas f" vg frecs "length vg"]
    by (simp add: bienFormada_def)
  then show "\<exists>f' vg'. solverConstructivo f vg frecs = Inr (f', vg')"
    by (auto simp: solverConstructivo_def)
qed

theorem solverConstructivo_completa_witness:
  "bienFormada (length [Unknown, Unknown])
     (Formula_de [Clausula_de [1, 2], Clausula_de [-1, 2], Clausula_de [-2]]) \<and>
   length [\<lparr>pos = 1, neg = 1\<rparr>, \<lparr>pos = 2, neg = 1\<rparr>] = length [Unknown, Unknown] \<and>
   (\<exists>f' vg'. solverConstructivo
        (Formula_de [Clausula_de [1, 2], Clausula_de [-1, 2], Clausula_de [-2]])
        [Unknown, Unknown] [\<lparr>pos = 1, neg = 1\<rparr>, \<lparr>pos = 2, neg = 1\<rparr>] = Inr (f', vg') \<and>
      length vg' = 2 \<and> list_all (\<lambda>x. x = TrueT \<or> x = FalseT) vg')"
proof -
  let ?f = "Formula_de [Clausula_de [1, 2], Clausula_de [-1, 2], Clausula_de [-2]]"
  let ?frecs = "[\<lparr>pos = 1, neg = 1\<rparr>, \<lparr>pos = 2, neg = 1\<rparr>]"
  have bf: "bienFormada (length [Unknown, Unknown]) ?f"
    by (simp add: bienFormada_def enRango_def Formula_de_def Clausula_de_def)
  have len: "length ?frecs = length [Unknown, Unknown]" by simp
  from solverConstructivo_completa [of ?f "[Unknown, Unknown]" ?frecs] bf len
  obtain f' vg' where r: "solverConstructivo ?f [Unknown, Unknown] ?frecs = Inr (f', vg')"
    by blast
  with solverConstructivo_completa [of ?f "[Unknown, Unknown]" ?frecs]
  have "length vg' = 2 \<and> list_all (\<lambda>x. x = TrueT \<or> x = FalseT) vg'"
    by auto
  with bf len r show ?thesis by blast
qed

text \<open>The scenario \<open>(x1 \<or> x2), (\<not>x1 \<or> x2), (\<not>x2)\<close>, evaluated.\<close>

lemma solverConstructivo_ejemplo:
  "solverConstructivo
        (Formula_de [Clausula_de [1, 2], Clausula_de [-1, 2], Clausula_de [-2]])
        [Unknown, Unknown] [\<lparr>pos = 1, neg = 1\<rparr>, \<lparr>pos = 2, neg = 1\<rparr>] =
   Inr (\<lparr>clausulas =
         [\<lparr>variables = [1, 2], satisfaccion = TrueT\<rparr>,
          \<lparr>variables = [- 1, 2], satisfaccion = TrueT\<rparr>,
          \<lparr>variables = [- 2], satisfaccion = FalseT\<rparr>]\<rparr>,
      [FalseT, TrueT])"
  by (simp add: solverConstructivo_def max_element_def setSatisfaccion_def aparece_def
      actualizarFrecuencias_def Formula_de_def Clausula_de_def Let_def numeral_2_eq_2 upt_rec)

section \<open>Iterated local search\<close>


lemma sortear_indice:
  "1 \<le> n \<Longrightarrow> sortear (0, int n - 1) gen = (int (gen 0 mod n), \<lambda>i. gen (Suc i))"
  by (simp add: sortear_def zmod_int)






lemma probar_length:
  "probar f cands vars c = Inr (vars', c', m) \<Longrightarrow> length vars' = length vars"
proof (induction cands arbitrary: vars)
  case Nil
  then show ?case by simp
next
  case (Cons idx resto)
  let ?vars1 = "vars[nat idx := flipT (vars ! nat idx)]"
  let ?vars2 = "?vars1[nat idx := flipT (?vars1 ! nat idx)]"
  from Cons.prems consider "vars' = ?vars1" | "probar f resto ?vars2 c = Inr (vars', c', m)"
    by (auto simp: Let_def split: if_splits sum.splits)
  then show ?case
  proof cases
    case 1
    then show ?thesis by simp
  next
    case 2
    from Cons.IH [OF this] show ?thesis by simp
  qed
qed

lemma bucle_length:
  "busquedaLocal_bucle f vars c = Inr v1 \<Longrightarrow> length v1 = length vars"
proof (induction f vars c rule: busquedaLocal_bucle.induct)
  case (1 f vars costoActual)
  from "1.prems" obtain cands vars' costo' mejora where
    cands: "candidatos f vars = Inr cands"
    and pr: "probar f cands vars costoActual = Inr (vars', costo', mejora)"
    by (subst (asm) busquedaLocal_bucle.simps) (auto split: sum.splits)
  note len = probar_length [OF pr]
  show ?case
  proof (cases mejora)
    case True
    with "1.prems" cands pr have "busquedaLocal_bucle f vars' costo' = Inr v1"
      by (subst (asm) busquedaLocal_bucle.simps) simp
    from "1.IH" [OF cands pr refl refl True this] len show ?thesis by simp
  next
    case False
    with "1.prems" cands pr have "v1 = vars'"
      by (subst (asm) busquedaLocal_bucle.simps) simp
    with len show ?thesis by simp
  qed
qed

lemma busquedaLocal_length:
  "busquedaLocal f vars = Inr v1 \<Longrightarrow> length v1 = length vars"
  by (auto simp: busquedaLocal_def split: sum.splits dest: bucle_length)

subsection \<open>The best-so-far invariant of the rounds\<close>




subsection \<open>The rounds return on well-formed input\<close>




section \<open>Tabu search\<close>

subsection \<open>Resolving an unknown entry never raises the cost\<close>

lemma flipT_tres: "flipT (flipT (flipT x)) = flipT x"
  by (simp add: flipT_def)

lemma flipT_flipT_refina: "x = Unknown \<or> flipT (flipT x) = x"
  by (cases x) (simp_all add: flipT_def)

lemma literalCierto_refina:
  assumes "enRango (length a) v" and "length b = length a"
    and "\<forall>i<length a. a ! i = Unknown \<or> b ! i = a ! i"
    and "literalCierto a v"
  shows "literalCierto b v"
proof -
  from assms(1) have "nat (\<bar>v\<bar> - 1) < length a"
    unfolding enRango_def by linarith
  with assms(3) have "a ! nat (\<bar>v\<bar> - 1) = Unknown \<or> b ! nat (\<bar>v\<bar> - 1) = a ! nat (\<bar>v\<bar> - 1)"
    by blast
  with assms(4) show ?thesis
    by (auto simp: literalCierto_def)
qed

lemma satisface_refina:
  assumes "list_all (enRango (length a)) (variables c)" and "length b = length a"
    and "\<forall>i<length a. a ! i = Unknown \<or> b ! i = a ! i"
    and "satisface a c"
  shows "satisface b c"
  using assms literalCierto_refina [OF _ assms(2,3)]
  by (auto simp: satisface_def list_ex_iff list_all_iff)

lemma length_filter_mono:
  "\<forall>x\<in>set xs. P x \<longrightarrow> Q x \<Longrightarrow> length (filter P xs) \<le> length (filter Q xs)"
  by (induction xs) auto

lemma costo_refina:
  assumes "bienFormada (length a) f" and "length b = length a"
    and "\<forall>i<length a. a ! i = Unknown \<or> b ! i = a ! i"
  shows "costo f b \<le> costo f a"
proof -
  have "\<forall>c\<in>set (clausulas f). \<not> satisface b c \<longrightarrow> \<not> satisface a c"
    using assms(1) satisface_refina [OF _ assms(2,3)]
    by (auto simp: bienFormada_def list_all_iff)
  then show ?thesis
    unfolding costo_def by (simp add: length_filter_mono)
qed

text \<open>A simulated flip followed by its revert, at any position, can only resolve an entry.\<close>

lemma costo_tras_revertir:
  assumes "bienFormada (length cur) f" and "j < length cur" and "i < length cur"
  shows "costo f ((cur[j := flipT (flipT (cur ! j))])
                    [i := flipT (cur[j := flipT (flipT (cur ! j))] ! i)])
         \<le> costo f (cur[i := flipT (cur ! i)])"
proof (cases "i = j")
  case True
  with assms show ?thesis by (simp add: flipT_tres)
next
  case False
  let ?a = "cur[i := flipT (cur ! i)]"
  let ?b = "(cur[j := flipT (flipT (cur ! j))])[i := flipT (cur[j := flipT (flipT (cur ! j))] ! i)]"
  from False have b: "?b = ?a[j := flipT (flipT (cur ! j))]"
    by (simp add: list_update_swap)
  have "\<forall>k<length ?a. ?a ! k = Unknown \<or> ?b ! k = ?a ! k"
  proof (intro allI impI)
    fix k assume "k < length ?a"
    show "?a ! k = Unknown \<or> ?b ! k = ?a ! k"
    proof (cases "k = j")
      case True
      with False assms flipT_flipT_refina [of "cur ! j"] show ?thesis
        by (simp add: b)
    next
      case False
      then show ?thesis by (simp add: b)
    qed
  qed
  moreover from assms(1) have "bienFormada (length ?a) f" by simp
  moreover have "length ?b = length ?a" by simp
  ultimately show ?thesis by (rule costo_refina [rotated 2])
qed

subsection \<open>The neighbourhood scan on well-formed input\<close>

lemma explorar_bienFormada:
  assumes "bienFormada n f"
  shows "length cur = n \<Longrightarrow> \<forall>i\<in>set is. i < n \<Longrightarrow> movimientoAcotado f costoActual cur idx d \<Longrightarrow>
     \<exists>cur' idx' d'.
        explorar f iter tabuUntil costoActual mejorCostoGlobal is cur idx d = Inr (cur', idx', d') \<and>
        length cur' = n \<and> movimientoAcotado f costoActual cur' idx' d'"
proof (induction "is" arbitrary: cur idx d)
  case Nil
  then show ?case by simp
next
  case (Cons i resto)
  let ?vars1 = "cur[i := flipT (cur ! i)]"
  let ?vars2 = "?vars1[i := flipT (?vars1 ! i)]"
  let ?delta = "costo f ?vars1 - costoActual"
  from Cons.prems have i: "i < length cur" and resto: "\<forall>i\<in>set resto. i < n" by simp_all
  from assms Cons.prems(1) have c1: "calcularCosto f ?vars1 = Inr (costo f ?vars1)"
    by (simp add: calcularCosto_rango)
  from i have v2: "?vars2 = cur[i := flipT (flipT (cur ! i))]" by simp
  from Cons.prems(1) have l2: "length ?vars2 = n" by simp
  from assms Cons.prems(1) have bf: "bienFormada (length cur) f" by simp
  define elegido where
    "elegido \<longleftrightarrow> (\<not> iter < tabuUntil ! i \<or> costo f ?vars1 < mejorCostoGlobal) \<and> ?delta < d"
  have paso: "explorar f iter tabuUntil costoActual mejorCostoGlobal (i # resto) cur idx d =
      (if elegido
       then explorar f iter tabuUntil costoActual mejorCostoGlobal resto ?vars2 (int i) ?delta
       else explorar f iter tabuUntil costoActual mejorCostoGlobal resto ?vars2 idx d)"
    by (simp add: c1 Let_def elegido_def)
  show ?case
  proof (cases elegido)
    case True
    from i have "?vars2[i := flipT (?vars2 ! i)] = ?vars1"
      by (simp add: flipT_tres)
    with i have "movimientoAcotado f costoActual ?vars2 (int i) ?delta"
      by (simp add: movimientoAcotado_def)
    from Cons.IH [OF l2 resto this] show ?thesis
      by (simp only: paso True if_True)
  next
    case False
    have "movimientoAcotado f costoActual ?vars2 idx d"
    proof (cases "idx = - 1")
      case True
      then show ?thesis by (simp add: movimientoAcotado_def)
    next
      case False
      with Cons.prems(3) have r: "0 \<le> idx" "idx < int (length cur)"
        and le: "costo f (cur[nat idx := flipT (cur ! nat idx)]) \<le> costoActual + d"
        by (simp_all add: movimientoAcotado_def)
      from r have "nat idx < length cur" by simp
      from costo_tras_revertir [OF bf i this] le
      have "costo f ((cur[i := flipT (flipT (cur ! i))])
                       [nat idx := flipT (cur[i := flipT (flipT (cur ! i))] ! nat idx)])
            \<le> costoActual + d"
        by linarith
      with r show ?thesis
        unfolding v2 movimientoAcotado_def by simp
    qed
    from Cons.IH [OF l2 resto this] show ?thesis
      by (simp only: paso False if_False)
  qed
qed

subsection \<open>The best-so-far invariant of tabu search\<close>

lemma tabu_iteracion_mejorAcotado:
  assumes "bienFormada n f" and "mejorAcotado f n c0 st"
  shows "\<exists>st'. tabu_iteracion f tenureBase iter st = Inr st' \<and> mejorAcotado f n c0 st'"
proof -
  from assms(2) have l: "length (ts_vars st) = n" by (simp add: mejorAcotado_def)
  have "movimientoAcotado f (ts_costoActual st) (ts_vars st) (- 1) 1000000000"
    by (simp add: movimientoAcotado_def)
  from explorar_bienFormada [OF assms(1) l _ this, of "[0..<length (ts_vars st)]" iter
      "ts_tabuUntil st" "ts_mejorCostoGlobal st"] l
  obtain cur' idx' d' where
    e: "explorar f iter (ts_tabuUntil st) (ts_costoActual st) (ts_mejorCostoGlobal st)
          [0..<length (ts_vars st)] (ts_vars st) (- 1) 1000000000 = Inr (cur', idx', d')"
    and l': "length cur' = n"
    and m: "movimientoAcotado f (ts_costoActual st) cur' idx' d'"
    by auto
  show ?thesis
  proof (cases "idx' = - 1")
    case True
    with e l' assms(2) show ?thesis
      by (simp add: tabu_iteracion_def mejorAcotado_def)
  next
    case False
    with m have le: "costo f (cur'[nat idx' := flipT (cur' ! nat idx')]) \<le> ts_costoActual st + d'"
      by (simp add: movimientoAcotado_def)
    show ?thesis
    proof (cases "ts_costoActual st + d' < ts_mejorCostoGlobal st")
      case True
      with False e l' le assms(2) show ?thesis
        by (simp add: tabu_iteracion_def mejorAcotado_def Let_def split: prod.splits)
    next
      case c: False
      with False e l' assms(2) show ?thesis
        by (simp add: tabu_iteracion_def mejorAcotado_def Let_def split: prod.splits)
    qed
  qed
qed

lemma tabu_bucle_mejorAcotado:
  assumes "bienFormada n f"
  shows "mejorAcotado f n c0 st \<Longrightarrow>
     \<exists>st'. tabu_bucle f tenureBase m iter st = Inr st' \<and> mejorAcotado f n c0 st'"
proof (induction m arbitrary: iter st)
  case 0
  then show ?case by simp
next
  case (Suc m)
  from tabu_iteracion_mejorAcotado [OF assms Suc.prems, of tenureBase iter] obtain st1 where
    s: "tabu_iteracion f tenureBase iter st = Inr st1" "mejorAcotado f n c0 st1"
    by blast
  from Suc.IH [OF s(2), of "iter + 1"] s(1) show ?case by simp
qed

lemma tabu_no_empeora:
  assumes "bienFormada (length vars) f"
  shows "\<exists>res. busquedaTabu f vars maxIteraciones tenureBase gen = Inr res \<and>
           length res = length vars \<and> costo f res \<le> costo f vars"
proof -
  have "mejorAcotado f (length vars) (costo f vars) (tabu_inicial vars (costo f vars) gen)"
    by (simp add: mejorAcotado_def tabu_inicial_def)
  from tabu_bucle_mejorAcotado [OF assms this, of tenureBase "nat maxIteraciones" 1]
  obtain st where "tabu_bucle f tenureBase (nat maxIteraciones) 1
       (tabu_inicial vars (costo f vars) gen) = Inr st"
    "mejorAcotado f (length vars) (costo f vars) st"
    by blast
  with assms show ?thesis
    by (simp add: busquedaTabu_def calcularCosto_rango mejorAcotado_def)
qed

subsection \<open>The scan on a complete assignment\<close>

lemma explorar_completa:
  "Unknown \<notin> set cur \<Longrightarrow> \<forall>i\<in>set is. i < length cur \<Longrightarrow>
   explorar f iter tabuUntil costoActual mejorCostoGlobal is cur idx d = Inr (cur', idx', d') \<Longrightarrow>
   cur' = cur \<and> d' \<le> d \<and>
   ((idx' = idx \<and> d' = d) \<or>
    (d' < d \<and> (\<exists>i\<in>set is. idx' = int i \<and>
        calcularCosto f (cur[i := flipT (cur ! i)]) = Inr (costoActual + d')))) \<and>
   (\<forall>i\<in>set is. \<forall>c. calcularCosto f (cur[i := flipT (cur ! i)]) = Inr c \<and>
        (\<not> iter < tabuUntil ! i \<or> c < mejorCostoGlobal) \<longrightarrow> d' \<le> c - costoActual)"
proof (induction "is" arbitrary: idx d)
  case Nil
  then show ?case by simp
next
  case (Cons i resto)
  let ?vars1 = "cur[i := flipT (cur ! i)]"
  from Cons.prems(2) have i: "i < length cur" and resto: "\<forall>i\<in>set resto. i < length cur"
    by simp_all
  have v2: "?vars1[i := flipT (?vars1 ! i)] = cur"
    by (rule flip_revertir [OF Cons.prems(1) i])
  from Cons.prems(3) obtain c1 where c1: "calcularCosto f ?vars1 = Inr c1"
    by (auto simp: Let_def split: sum.splits)
  define elegido where
    "elegido \<longleftrightarrow> (\<not> iter < tabuUntil ! i \<or> c1 < mejorCostoGlobal) \<and> c1 - costoActual < d"
  have paso: "explorar f iter tabuUntil costoActual mejorCostoGlobal (i # resto) cur idx d =
      (if elegido
       then explorar f iter tabuUntil costoActual mejorCostoGlobal resto cur (int i) (c1 - costoActual)
       else explorar f iter tabuUntil costoActual mejorCostoGlobal resto cur idx d)"
    using v2 by (simp add: c1 Let_def elegido_def)
  show ?case
  proof (cases elegido)
    case True
    with Cons.prems(3) have
      "explorar f iter tabuUntil costoActual mejorCostoGlobal resto cur (int i) (c1 - costoActual)
         = Inr (cur', idx', d')"
      by (simp only: paso if_True)
    from Cons.IH [OF Cons.prems(1) resto this] True c1 show ?thesis
      by (auto simp: elegido_def)
  next
    case False
    with Cons.prems(3) have
      "explorar f iter tabuUntil costoActual mejorCostoGlobal resto cur idx d = Inr (cur', idx', d')"
      by (simp only: paso if_False)
    from Cons.IH [OF Cons.prems(1) resto this] False c1 show ?thesis
      by (auto simp: elegido_def)
  qed
qed

subsection \<open>Incremental cost of tabu search\<close>

lemma tabu_iteracion_consistente:
  assumes "costoConsistente f st" and "tabu_iteracion f tenureBase iter st = Inr st'"
  shows "costoConsistente f st'"
proof -
  from assms(1) have sin: "Unknown \<notin> set (ts_vars st)"
    and c: "calcularCosto f (ts_vars st) = Inr (ts_costoActual st)"
    and m: "calcularCosto f (ts_mejorSolucionGlobal st) = Inr (ts_mejorCostoGlobal st)"
    by (simp_all add: costoConsistente_def)
  from assms(2) obtain cur' idx' d' where
    e: "explorar f iter (ts_tabuUntil st) (ts_costoActual st) (ts_mejorCostoGlobal st)
          [0..<length (ts_vars st)] (ts_vars st) (- 1) 1000000000 = Inr (cur', idx', d')"
    by (auto simp: tabu_iteracion_def split: sum.splits)
  have "\<forall>i\<in>set [0..<length (ts_vars st)]. i < length (ts_vars st)" by simp
  from explorar_completa [OF sin this e] have cur': "cur' = ts_vars st"
    and alt: "(idx' = - 1 \<and> d' = 1000000000) \<or>
      (\<exists>i<length (ts_vars st). idx' = int i \<and>
         calcularCosto f ((ts_vars st)[i := flipT (ts_vars st ! i)]) = Inr (ts_costoActual st + d'))"
    by auto
  show ?thesis
  proof (cases "idx' = - 1")
    case True
    with assms(2) e cur' have "st' = st\<lparr>ts_vars := ts_vars st\<rparr>"
      by (simp add: tabu_iteracion_def)
    with assms(1) show ?thesis by (simp add: costoConsistente_def)
  next
    case False
    with alt obtain i where i: "i < length (ts_vars st)" "idx' = int i"
      "calcularCosto f ((ts_vars st)[i := flipT (ts_vars st ! i)]) = Inr (ts_costoActual st + d')"
      by auto
    let ?vars2 = "(ts_vars st)[i := flipT (ts_vars st ! i)]"
    from sin have sin2: "Unknown \<notin> set ?vars2" by (rule sin_Unknown_update)
    from False assms(2) e cur' i(2) have
      "ts_vars st' = ?vars2 \<and> ts_costoActual st' = ts_costoActual st + d' \<and>
       ((ts_mejorSolucionGlobal st' = ?vars2 \<and> ts_mejorCostoGlobal st' = ts_costoActual st + d') \<or>
        (ts_mejorSolucionGlobal st' = ts_mejorSolucionGlobal st \<and>
         ts_mejorCostoGlobal st' = ts_mejorCostoGlobal st))"
      by (auto simp: tabu_iteracion_def Let_def split: prod.splits if_splits)
    with sin2 i(3) m show ?thesis
      by (auto simp: costoConsistente_def)
  qed
qed

lemma tabu_bucle_consistente:
  "costoConsistente f st \<Longrightarrow> tabu_bucle f tenureBase m iter st = Inr st' \<Longrightarrow>
   costoConsistente f st'"
proof (induction m arbitrary: iter st)
  case 0
  then show ?case by simp
next
  case (Suc m)
  from Suc.prems(2) obtain st1 where
    s: "tabu_iteracion f tenureBase iter st = Inr st1"
    and b: "tabu_bucle f tenureBase m (iter + 1) st1 = Inr st'"
    by (auto split: sum.splits)
  from tabu_iteracion_consistente [OF Suc.prems(1) s] have "costoConsistente f st1" .
  from Suc.IH [OF this b] show ?case .
qed

text \<open>The state at the start of iteration \<open>m + 1\<close> is the result of a budget of \<open>m\<close>.\<close>

lemma tabu_bucle_suma:
  "tabu_bucle f tenureBase (m + k) iter st =
     (case tabu_bucle f tenureBase m iter st of
        Inl e \<Rightarrow> Inl e
      | Inr st' \<Rightarrow> tabu_bucle f tenureBase k (iter + int m) st')"
proof (induction m arbitrary: iter st)
  case 0
  then show ?case by simp
next
  case (Suc m)
  from Suc.IH [of "iter + 1"] show ?case
    by (simp add: add.assoc split: sum.splits)
qed

text \<open>
  Claim C10 (amended). From a complete starting assignment (no \<open>Unknown\<close> entry) over a
  formula whose literals are in range, after any number \<open>m\<close> of iterations, that is at
  the start of iteration \<open>m + 1\<close>, the running cost equals \<open>calcularCosto\<close> of the current
  assignment, and the best cost equals \<open>calcularCosto\<close> of the best assignment.
\<close>

theorem tabu_costo_incremental:
  assumes "Unknown \<notin> set vars" and "bienFormada (length vars) f"
  shows "\<exists>c0. calcularCosto f vars = Inr c0 \<and>
           (\<forall>m. \<exists>st. tabu_bucle f tenureBase m 1 (tabu_inicial vars c0 gen) = Inr st \<and>
                   calcularCosto f (ts_vars st) = Inr (ts_costoActual st) \<and>
                   calcularCosto f (ts_mejorSolucionGlobal st) = Inr (ts_mejorCostoGlobal st))"
proof -
  let ?c0 = "costo f vars"
  let ?st0 = "tabu_inicial vars ?c0 gen"
  from assms(2) have c0: "calcularCosto f vars = Inr ?c0"
    by (rule calcularCosto_rango)
  with assms(1) have cons: "costoConsistente f ?st0"
    by (simp add: costoConsistente_def tabu_inicial_def)
  have acot: "mejorAcotado f (length vars) ?c0 ?st0"
    by (simp add: mejorAcotado_def tabu_inicial_def)
  have "\<exists>st. tabu_bucle f tenureBase m 1 ?st0 = Inr st \<and>
             calcularCosto f (ts_vars st) = Inr (ts_costoActual st) \<and>
             calcularCosto f (ts_mejorSolucionGlobal st) = Inr (ts_mejorCostoGlobal st)" for m
  proof -
    from tabu_bucle_mejorAcotado [OF assms(2) acot, of tenureBase m 1] obtain st where
      st: "tabu_bucle f tenureBase m 1 ?st0 = Inr st" by blast
    from tabu_bucle_consistente [OF cons st] st show ?thesis
      by (auto simp: costoConsistente_def)
  qed
  with c0 show ?thesis by blast
qed

theorem tabu_costo_incremental_witness:
  "Unknown \<notin> set [FalseT, TrueT] \<and>
   bienFormada (length [FalseT, TrueT]) (Formula_de [Clausula_de [1, 2], Clausula_de [-2]]) \<and>
   calcularCosto (Formula_de [Clausula_de [1, 2], Clausula_de [-2]]) [FalseT, TrueT] = Inr 1 \<and>
   (\<exists>st. tabu_bucle (Formula_de [Clausula_de [1, 2], Clausula_de [-2]]) 7 3 1
            (tabu_inicial [FalseT, TrueT] 1 (\<lambda>i. i)) = Inr st \<and>
         calcularCosto (Formula_de [Clausula_de [1, 2], Clausula_de [-2]]) (ts_vars st) =
           Inr (ts_costoActual st))"
proof -
  let ?f = "Formula_de [Clausula_de [1, 2], Clausula_de [-2]]"
  have sin: "Unknown \<notin> set [FalseT, TrueT]" by simp
  have bf: "bienFormada (length [FalseT, TrueT]) ?f"
    by (simp add: bienFormada_def enRango_def Formula_de_def Clausula_de_def)
  have c: "calcularCosto ?f [FalseT, TrueT] = Inr 1"
    by (simp add: calcularCosto_def esSatisfecha_def Formula_de_def Clausula_de_def)
  from tabu_costo_incremental [OF sin bf, of 7 "\<lambda>i. i"] c
  have "\<exists>st. tabu_bucle ?f 7 3 1 (tabu_inicial [FalseT, TrueT] 1 (\<lambda>i. i)) = Inr st \<and>
           calcularCosto ?f (ts_vars st) = Inr (ts_costoActual st)"
    by (metis sum.inject(2))
  with sin bf c show ?thesis by blast
qed

text \<open>
  The claim as stated (every input assignment) fails when an entry is \<open>Unknown\<close>: the
  simulated flip and its revert turn \<open>Unknown\<close> into \<open>FalseT\<close>, which changes the cost
  of the current assignment behind the running cost. After the first iteration on the
  formula \<open>(\<not>x2)\<close> from \<open>[Unknown, Unknown]\<close> the running cost is 1 and the assignment
  costs 0.
\<close>

theorem tabu_costo_incremental_counterexample:
  "calcularCosto (Formula_de [Clausula_de [-2]]) [Unknown, Unknown] = Inr 1 \<and>
   map_sum id (\<lambda>st. (ts_vars st, ts_costoActual st))
     (tabu_bucle (Formula_de [Clausula_de [-2]]) 7 1 1 (tabu_inicial [Unknown, Unknown] 1 (\<lambda>i. 0)))
     = Inr ([TrueT, FalseT], 1) \<and>
   calcularCosto (Formula_de [Clausula_de [-2]]) [TrueT, FalseT] = Inr 0"
  by (simp add: tabu_inicial_def tabu_iteracion_def calcularCosto_def esSatisfecha_def
      Formula_de_def Clausula_de_def flipT_def sortear_def Let_def upt_rec numeral_2_eq_2)

subsection \<open>The scan on any assignment\<close>



lemma revertidos_completa:
  "Unknown \<notin> set vars \<Longrightarrow> map (\<lambda>x. flipT (flipT x)) (take i vars) @ drop i vars = vars"
proof -
  assume "Unknown \<notin> set vars"
  then have "\<forall>x\<in>set (take i vars). flipT (flipT x) = x"
    by (metis flipT_flipT in_set_takeD)
  then have "map (\<lambda>x. flipT (flipT x)) (take i vars) = take i vars"
    by (simp add: map_idI)
  then show ?thesis by simp
qed



section \<open>Simulated annealing\<close>

lemma sortear_real_rango: "0 \<le> fst (sortear_real gen) \<and> fst (sortear_real gen) < 1"
proof -
  have "gen 0 mod 2 ^ 53 < (2 ^ 53 :: nat)" by simp
  then have "real (gen 0 mod 2 ^ 53) < real (2 ^ 53 :: nat)"
    by (simp only: of_nat_less_iff)
  then show ?thesis by (simp add: sortear_real_def)
qed

lemma sa_paso_mejorSA:
  assumes "bienFormada n f" and "1 \<le> n" and "mejorSA f n c0 st"
  shows "\<exists>st'. sa_paso f (0, int n - 1) T st = Inr st' \<and> mejorSA f n c0 st'"
proof -
  from assms(3) have l: "length (sa_actual st) = n" by (simp add: mejorSA_def)
  let ?j = "sa_gen st 0 mod n"
  let ?gen1 = "\<lambda>i. sa_gen st (Suc i)"
  let ?actual1 = "(sa_actual st)[?j := flipT (sa_actual st ! ?j)]"
  have s: "sortear (0, int n - 1) (sa_gen st) = (int ?j, ?gen1)"
    by (rule sortear_indice [OF assms(2)])
  from assms(2) have j: "?j < n" by simp
  then have r: "\<not> n \<le> ?j" by simp
  from assms(1) l have c: "calcularCosto f ?actual1 = Inr (costo f ?actual1)"
    by (simp add: calcularCosto_rango)
  obtain u gen2 where u: "sortear_real ?gen1 = (u, gen2)" by (cases "sortear_real ?gen1")
  consider (mejor) "costo f ?actual1 - sa_costoActual st < 0" "costo f ?actual1 < sa_mejorCostoGlobal st"
    | (baja) "costo f ?actual1 - sa_costoActual st < 0" "\<not> costo f ?actual1 < sa_mejorCostoGlobal st"
    | (acepta) "\<not> costo f ?actual1 - sa_costoActual st < 0"
        "u < exp (real_of_int (- (costo f ?actual1 - sa_costoActual st)) / T)"
    | (rechaza) "\<not> costo f ?actual1 - sa_costoActual st < 0"
        "\<not> u < exp (real_of_int (- (costo f ?actual1 - sa_costoActual st)) / T)"
    by blast
  then show ?thesis
  proof cases
    case mejor
    with assms(3) l show ?thesis
      unfolding sa_paso_def s by (simp add: r c Let_def mejorSA_def)
  next
    case baja
    with assms(3) l show ?thesis
      unfolding sa_paso_def s by (simp add: r c Let_def mejorSA_def)
  next
    case acepta
    with assms(3) l show ?thesis
      unfolding sa_paso_def s by (simp add: r c u Let_def mejorSA_def)
  next
    case rechaza
    with assms(3) l show ?thesis
      unfolding sa_paso_def s by (simp add: r c u Let_def mejorSA_def)
  qed
qed

lemma sa_nivel_mejorSA:
  assumes "bienFormada n f" and "1 \<le> n"
  shows "mejorSA f n c0 st \<Longrightarrow>
     \<exists>st'. sa_nivel f (0, int n - 1) T m st = Inr st' \<and> mejorSA f n c0 st'"
proof (induction m arbitrary: st)
  case 0
  then show ?case by simp
next
  case (Suc m)
  from sa_paso_mejorSA [OF assms Suc.prems, of T] obtain st1 where
    s: "sa_paso f (0, int n - 1) T st = Inr st1" "mejorSA f n c0 st1"
    by blast
  from Suc.IH [OF s(2)] s(1) show ?case by simp
qed





subsection \<open>Whenever the annealing returns; and when it does not\<close>

lemma sa_paso_mejorExacto:
  assumes "sa_paso f varDist T st = Inr st'"
    and "calcularCosto f (sa_mejorSolucionGlobal st) = Inr (sa_mejorCostoGlobal st)"
    and "sa_mejorCostoGlobal st \<le> c0"
  shows "calcularCosto f (sa_mejorSolucionGlobal st') = Inr (sa_mejorCostoGlobal st') \<and>
         sa_mejorCostoGlobal st' \<le> c0"
  using assms
  by (auto simp: sa_paso_def Let_def split: prod.splits if_splits sum.splits)

lemma sa_nivel_mejorExacto:
  "sa_nivel f varDist T m st = Inr st' \<Longrightarrow>
   calcularCosto f (sa_mejorSolucionGlobal st) = Inr (sa_mejorCostoGlobal st) \<Longrightarrow>
   sa_mejorCostoGlobal st \<le> c0 \<Longrightarrow>
   calcularCosto f (sa_mejorSolucionGlobal st') = Inr (sa_mejorCostoGlobal st') \<and>
   sa_mejorCostoGlobal st' \<le> c0"
proof (induction m arbitrary: st)
  case 0
  then show ?case by simp
next
  case (Suc m)
  from Suc.prems(1) obtain st1 where
    p: "sa_paso f varDist T st = Inr st1" and n: "sa_nivel f varDist T m st1 = Inr st'"
    by (auto split: sum.splits)
  from sa_paso_mejorExacto [OF p Suc.prems(2,3)] Suc.IH [OF n] show ?case by simp
qed

lemma sa_enfriar_mejorExacto:
  assumes "sa_enfriar f varDist alpha iterPorTemp T st = Some r"
  shows "calcularCosto f (sa_mejorSolucionGlobal st) = Inr (sa_mejorCostoGlobal st) \<longrightarrow>
   sa_mejorCostoGlobal st \<le> c0 \<longrightarrow>
   (\<forall>st'. r = Inr st' \<longrightarrow>
      calcularCosto f (sa_mejorSolucionGlobal st') = Inr (sa_mejorCostoGlobal st') \<and>
      sa_mejorCostoGlobal st' \<le> c0)"
proof (rule sa_enfriar.raw_induct [where P = "\<lambda>f varDist alpha iterPorTemp T st r.
    calcularCosto f (sa_mejorSolucionGlobal st) = Inr (sa_mejorCostoGlobal st) \<longrightarrow>
    sa_mejorCostoGlobal st \<le> c0 \<longrightarrow>
    (\<forall>st'. r = Inr st' \<longrightarrow>
       calcularCosto f (sa_mejorSolucionGlobal st') = Inr (sa_mejorCostoGlobal st') \<and>
       sa_mejorCostoGlobal st' \<le> c0)", OF _ assms])
  fix enfriar f varDist alpha iterPorTemp T st r
  assume IH: "\<And>f varDist alpha iterPorTemp T st r.
      enfriar f varDist alpha iterPorTemp T st = Some r \<Longrightarrow>
      calcularCosto f (sa_mejorSolucionGlobal st) = Inr (sa_mejorCostoGlobal st) \<longrightarrow>
      sa_mejorCostoGlobal st \<le> c0 \<longrightarrow>
      (\<forall>st'. r = Inr st' \<longrightarrow>
         calcularCosto f (sa_mejorSolucionGlobal st') = Inr (sa_mejorCostoGlobal st') \<and>
         sa_mejorCostoGlobal st' \<le> c0)"
    and eq: "(if T_min < T
        then case sa_nivel f varDist T iterPorTemp st of
               Inl e \<Rightarrow> Some (Inl e)
             | Inr st' \<Rightarrow> enfriar f varDist alpha iterPorTemp (T * alpha) st'
        else Some (Inr st)) = Some r"
  show "calcularCosto f (sa_mejorSolucionGlobal st) = Inr (sa_mejorCostoGlobal st) \<longrightarrow>
    sa_mejorCostoGlobal st \<le> c0 \<longrightarrow>
    (\<forall>st'. r = Inr st' \<longrightarrow>
       calcularCosto f (sa_mejorSolucionGlobal st') = Inr (sa_mejorCostoGlobal st') \<and>
       sa_mejorCostoGlobal st' \<le> c0)"
  proof (intro impI allI)
    fix st'
    assume inv: "calcularCosto f (sa_mejorSolucionGlobal st) = Inr (sa_mejorCostoGlobal st)"
      "sa_mejorCostoGlobal st \<le> c0" and r: "r = Inr st'"
    show "calcularCosto f (sa_mejorSolucionGlobal st') = Inr (sa_mejorCostoGlobal st') \<and>
          sa_mejorCostoGlobal st' \<le> c0"
    proof (cases "T_min < T")
      case False
      with eq r inv show ?thesis by simp
    next
      case True
      with eq r obtain st1 where
        n: "sa_nivel f varDist T iterPorTemp st = Inr st1"
        and e: "enfriar f varDist alpha iterPorTemp (T * alpha) st1 = Some (Inr st')"
        by (auto split: sum.splits)
      from sa_nivel_mejorExacto [OF n inv] IH [OF e] show ?thesis by simp
    qed
  qed
qed

lemma sa_cuando_retorna:
  assumes "recocidoSimulado f vars gen tempInicial alpha iterPorTemp = Some (Inr (res, gen'))"
  shows "\<exists>c0 c. calcularCosto f vars = Inr c0 \<and> calcularCosto f res = Inr c \<and> c \<le> c0"
proof -
  from assms obtain c0 varDist st where c0: "calcularCosto f vars = Inr c0"
    and e: "sa_enfriar f varDist alpha (nat iterPorTemp) tempInicial
              \<lparr>sa_actual = vars, sa_costoActual = c0, sa_mejorSolucionGlobal = vars,
               sa_mejorCostoGlobal = c0, sa_gen = gen\<rparr> = Some (Inr st)"
    and r: "res = sa_mejorSolucionGlobal st"
    by (auto simp: recocidoSimulado_def split: sum.splits option.splits)
  from sa_enfriar_mejorExacto [OF e, of c0] c0 r show ?thesis by simp
qed

lemma sa_enfriar_no_retorna:
  assumes "bienFormada n f" and "1 \<le> n" and "1 \<le> alpha"
    and "sa_enfriar f (0, int n - 1) alpha iterPorTemp T st = Some r"
  shows "T_min < T \<longrightarrow> (\<forall>c0. \<not> mejorSA f n c0 st)"
proof -
  have general: "f' = f \<longrightarrow> varDist = (0, int n - 1) \<longrightarrow> alpha' = alpha \<longrightarrow> T_min < T \<longrightarrow>
      (\<forall>c0. \<not> mejorSA f n c0 st)"
    if "sa_enfriar f' varDist alpha' iterPorTemp T st = Some r"
    for f' varDist alpha' iterPorTemp T st r
  proof (rule sa_enfriar.raw_induct [where P = "\<lambda>f' varDist alpha' iterPorTemp T st r.
    f' = f \<longrightarrow> varDist = (0, int n - 1) \<longrightarrow> alpha' = alpha \<longrightarrow> T_min < T \<longrightarrow>
    (\<forall>c0. \<not> mejorSA f n c0 st)", OF _ that])
  fix enfriar f' varDist alpha' iterPorTemp T st r
  assume IH: "\<And>f' varDist alpha' iterPorTemp T st r.
      enfriar f' varDist alpha' iterPorTemp T st = Some r \<Longrightarrow>
      f' = f \<longrightarrow> varDist = (0, int n - 1) \<longrightarrow> alpha' = alpha \<longrightarrow> T_min < T \<longrightarrow>
      (\<forall>c0. \<not> mejorSA f n c0 st)"
    and eq: "(if T_min < T
        then case sa_nivel f' varDist T iterPorTemp st of
               Inl e \<Rightarrow> Some (Inl e)
             | Inr st' \<Rightarrow> enfriar f' varDist alpha' iterPorTemp (T * alpha') st'
        else Some (Inr st)) = Some r"
  show "f' = f \<longrightarrow> varDist = (0, int n - 1) \<longrightarrow> alpha' = alpha \<longrightarrow> T_min < T \<longrightarrow>
      (\<forall>c0. \<not> mejorSA f n c0 st)"
  proof (intro impI allI notI)
    fix c0
    assume f: "f' = f" and v: "varDist = (0, int n - 1)" and a: "alpha' = alpha"
      and T: "T_min < T" and m: "mejorSA f n c0 st"
    from sa_nivel_mejorSA [OF assms(1,2) m, of T iterPorTemp] obtain st1 where
      n: "sa_nivel f (0, int n - 1) T iterPorTemp st = Inr st1" and m1: "mejorSA f n c0 st1"
      by blast
    from eq T n f v have e: "enfriar f' varDist alpha' iterPorTemp (T * alpha') st1 = Some r"
      by simp
    from T have "0 < T" by (simp add: T_min_def)
    with assms(3) have "T * 1 \<le> T * alpha" by (simp only: mult_le_cancel_left_pos)
    with T a have "T_min < T * alpha'" by simp
    with IH [OF e] f v a m1 show False by blast
  qed
  qed
  from general [OF assms(4)] show ?thesis by simp
qed

lemma sa_no_retorna:
  assumes "bienFormada (length vars) f" and "1 \<le> length vars" and "1 \<le> alpha"
    and "T_min < tempInicial"
  shows "recocidoSimulado f vars gen tempInicial alpha iterPorTemp = None"
proof -
  let ?st0 = "\<lparr>sa_actual = vars, sa_costoActual = costo f vars,
      sa_mejorSolucionGlobal = vars, sa_mejorCostoGlobal = costo f vars, sa_gen = gen\<rparr>"
  have m: "mejorSA f (length vars) (costo f vars) ?st0" by (simp add: mejorSA_def)
  have "sa_enfriar f (0, int (length vars) - 1) alpha (nat iterPorTemp) tempInicial ?st0 = None"
  proof (cases "sa_enfriar f (0, int (length vars) - 1) alpha (nat iterPorTemp) tempInicial ?st0")
    case None
    then show ?thesis .
  next
    case (Some r)
    from sa_enfriar_no_retorna [OF assms(1,2,3) Some] assms(4) m show ?thesis by blast
  qed
  moreover from assms(2) have "vars \<noteq> []" by auto
  ultimately show ?thesis
    using assms(1)
    by (simp add: recocidoSimulado_def calcularCosto_rango uniform_int_distribution_def)
qed

text \<open>
  Claim C6. In an inner iteration of \<open>recocidoSimulado\<close> (so \<open>T > T_min\<close>), when the
  flipped assignment costs exactly the current cost (\<open>delta = 0\<close>), the acceptance
  probability is \<open>exp 0 = 1\<close>, every draw of the uniform distribution on \<open>[0, 1)\<close> is
  below it, and the step keeps the flipped assignment: the flip is not reverted.
\<close>

theorem sa_delta_cero_aceptado:
  assumes "T_min < T"
    and "sortear varDist (sa_gen st) = (idx, gen1)"
    and "0 \<le> idx" and "idx < int (length (sa_actual st))"
    and "calcularCosto f ((sa_actual st)[nat idx := flipT (sa_actual st ! nat idx)]) =
           Inr (sa_costoActual st)"
  shows "exp (real_of_int (- (sa_costoActual st - sa_costoActual st)) / T) = 1 \<and>
         fst (sortear_real gen1) < 1 \<and>
         sa_paso f varDist T st =
           Inr (st\<lparr>sa_actual := (sa_actual st)[nat idx := flipT (sa_actual st ! nat idx)],
                  sa_costoActual := sa_costoActual st,
                  sa_gen := snd (sortear_real gen1)\<rparr>)"
proof -
  have p: "exp (real_of_int (- (sa_costoActual st - sa_costoActual st)) / T) = 1" by simp
  have u: "fst (sortear_real gen1) < 1" using sortear_real_rango [of gen1] by simp
  from assms(3,4) have r: "\<not> (idx < 0 \<or> int (length (sa_actual st)) \<le> idx)" by simp
  obtain x gen2 where ug: "sortear_real gen1 = (x, gen2)" by (cases "sortear_real gen1")
  with u have x: "x < 1" by simp
  have "sa_paso f varDist T st =
           Inr (st\<lparr>sa_actual := (sa_actual st)[nat idx := flipT (sa_actual st ! nat idx)],
                  sa_costoActual := sa_costoActual st,
                  sa_gen := snd (sortear_real gen1)\<rparr>)"
    unfolding sa_paso_def assms(2) using r x
    by (simp add: assms(5) ug Let_def)
  with p u show ?thesis by simp
qed

theorem sa_delta_cero_aceptado_witness:
  "T_min < 10 \<and>
   sortear (0, 1) (\<lambda>i. 0) = (0, \<lambda>i. 0) \<and>
   calcularCosto (Formula_de [Clausula_de [1, 2]]) [FalseT, TrueT] = Inr 0 \<and>
   map_sum id sa_actual
     (sa_paso (Formula_de [Clausula_de [1, 2]]) (0, 1) 10
        \<lparr>sa_actual = [TrueT, TrueT], sa_costoActual = 0,
         sa_mejorSolucionGlobal = [TrueT, TrueT], sa_mejorCostoGlobal = 0,
         sa_gen = \<lambda>i. 0\<rparr>) = Inr [FalseT, TrueT]"
proof -
  let ?f = "Formula_de [Clausula_de [1, 2]]"
  let ?st = "\<lparr>sa_actual = [TrueT, TrueT], sa_costoActual = 0,
         sa_mejorSolucionGlobal = [TrueT, TrueT], sa_mejorCostoGlobal = 0,
         sa_gen = \<lambda>i. 0\<rparr>"
  have T: "T_min < 10" by (simp add: T_min_def)
  have s: "sortear (0, 1) (sa_gen ?st) = (0, \<lambda>i. 0)" by (simp add: sortear_def)
  have c: "calcularCosto ?f [FalseT, TrueT] = Inr 0"
    by (simp add: calcularCosto_def esSatisfecha_def Formula_de_def Clausula_de_def)
  then have c': "calcularCosto ?f ((sa_actual ?st)[nat 0 := flipT (sa_actual ?st ! nat 0)]) =
      Inr (sa_costoActual ?st)"
    by (simp add: flipT_def)
  from sa_delta_cero_aceptado [OF T s _ _ c']
  have "sa_paso ?f (0, 1) 10 ?st =
      Inr (?st\<lparr>sa_actual := (sa_actual ?st)[nat 0 := flipT (sa_actual ?st ! nat 0)],
             sa_costoActual := sa_costoActual ?st,
             sa_gen := snd (sortear_real (\<lambda>i. 0))\<rparr>)"
    by simp
  then have "map_sum id sa_actual (sa_paso ?f (0, 1) 10 ?st) = Inr [FalseT, TrueT]"
    by (simp add: flipT_def)
  with T s c show ?thesis by simp
qed

section \<open>GRASP\<close>










section \<open>Best-so-far tracking of the metaheuristics\<close>




section \<open>Degenerate instances\<close>

text \<open>
  Claim C8. With zero variables \<open>busquedaLocalIterada\<close> and \<open>recocidoSimulado\<close> construct
  \<^verbatim>\<open>uniform_int_distribution<>(0, vars.size() - 1)\<close>, that is \<open>(0, -1)\<close>, and then draw
  an index into the empty vector: they do not terminate normally on the empty
  instance.
\<close>

theorem sin_variables_distribucion_invalida:
  "busquedaLocalIterada (Formula_de []) [] 20 (\<lambda>i. 0) = Inl InvalidDistribution \<and>
   recocidoSimulado (Formula_de []) [] (\<lambda>i. 0) 10 0.98 100 = Some (Inl InvalidDistribution)"
  by (simp add: busquedaLocalIterada_def recocidoSimulado_def calcularCosto_def Formula_de_def
      uniform_int_distribution_def)

text \<open>
  The other strategies take the empty instance as a base case, and with zero clauses
  and at least one variable every strategy returns (the general results above apply,
  the empty formula being well formed) at cost 0.
\<close>

lemma sin_variables_restantes:
  "solverConstructivo (Formula_de []) [] [] = Inr (Formula_de [], []) \<and>
   busquedaLocal (Formula_de []) [] = Inr [] \<and>
   busquedaTabu (Formula_de []) [] maxIteraciones tenureBase gen = Inr [] \<and>
   map_sum id fst (busquedaGRASP (Formula_de []) [] 20 alpha gen []) = Inr [] \<and>
   calcularCosto (Formula_de []) [] = Inr 0"
proof -
  have bf: "bienFormada (length []) (Formula_de [])"
    by (simp add: bienFormada_def Formula_de_def)
  have s: "solverConstructivo (Formula_de []) [] [] = Inr (Formula_de [], [])"
    by (simp add: solverConstructivo_def Formula_de_def)
  have b: "busquedaLocal (Formula_de []) [] = Inr []"
    using busquedaLocal_total [OF bf] by simp
  have t: "busquedaTabu (Formula_de []) [] maxIteraciones tenureBase gen = Inr []"
    using tabu_no_empeora [OF bf, of maxIteraciones tenureBase gen] by simp
  have c: "calcularCosto (Formula_de []) [] = Inr 0"
    by (simp add: calcularCosto_def Formula_de_def)
  have r: "grasp_ronda (Formula_de []) 0 alpha [] ([], mc, g) =
      Inr ([], if 0 < mc then 0 else mc, g)" for mc g
    by (simp add: grasp_ronda_def construccionGRASP_def b c)
  have "\<exists>c'. grasp_bucle (Formula_de []) 0 alpha [] m ([], mc, g) = Inr ([], c', g)" for m mc g
    by (induction m arbitrary: mc) (simp_all add: r)
  then obtain c' where
    "grasp_bucle (Formula_de []) 0 alpha [] (nat 20) ([], 2147483647, gen) = Inr ([], c', gen)"
    by blast
  then have "map_sum id fst (busquedaGRASP (Formula_de []) [] 20 alpha gen []) = Inr []"
    by (simp add: busquedaGRASP_def)
  with s b t c show ?thesis by simp
qed

lemma sin_clausulas_costo_cero: "calcularCosto (Formula_de []) vars = Inr 0"
  by (simp add: calcularCosto_def Formula_de_def)

lemma sin_clausulas_bienFormada: "bienFormada n (Formula_de [])"
  by (simp add: bienFormada_def Formula_de_def)

end
